theory Spec2Isabelle
  imports Main "HOL-Library.Word"
begin

unbundle bit_operations_syntax

section \<open>The object model (object/object.go)\<close>

text \<open>
  Every runtime value of the interpreter is a Go struct behind a pointer, and an
  \<^verbatim>\<open>Object\<close> interface value is such a pointer together with its dynamic type.
  The model keeps that shape: an address is a natural number, the memory holds one table
  of structs per struct type, and an \<^verbatim>\<open>Object\<close> is an address tagged with the type
  of the struct it points to. Two interface values are the same instance exactly when
  they are equal as tagged addresses.

  Scope: interface values and receivers are non-nil, and the map of a \<^verbatim>\<open>Hash\<close> is
  allocated, as \<^verbatim>\<open>NewHash\<close> leaves it.
\<close>

type_synonym addr = nat
type_synonym ObjectType = string

text \<open>Go's \<^verbatim>\<open>int64\<close> and \<^verbatim>\<open>uint64\<close> are 64-bit patterns; \<open>sint\<close> reads the first,
  \<open>uint\<close> the second.\<close>

type_synonym int64 = "64 word"
type_synonym uint64 = "64 word"

definition INTEGER_OBJ :: ObjectType where "INTEGER_OBJ = ''INTEGER''"
definition BOOLEAN_OBJ :: ObjectType where "BOOLEAN_OBJ = ''BOOLEAN''"
definition NULL_OBJ :: ObjectType where "NULL_OBJ = ''NULL''"
definition RETURN_VALUE_OBJ :: ObjectType where "RETURN_VALUE_OBJ = ''RETURN_VALUE''"
definition ERROR_OBJ :: ObjectType where "ERROR_OBJ = ''ERROR''"
definition FUNCTION_OBJ :: ObjectType where "FUNCTION_OBJ = ''FUNCTION''"
definition STRING_OBJ :: ObjectType where "STRING_OBJ = ''STRING''"
definition BUILTIN_OBJ :: ObjectType where "BUILTIN_OBJ = ''BUILTIN''"
definition ARRAY_OBJ :: ObjectType where "ARRAY_OBJ = ''ARRAY''"
definition HASH_OBJ :: ObjectType where "HASH_OBJ = ''HASH''"

text \<open>An \<^verbatim>\<open>Object\<close> interface value: one constructor per struct type that implements
  the interface, holding the pointer.\<close>

datatype Object =
    IntegerPtr addr
  | BooleanPtr addr
  | NullPtr addr
  | ReturnValuePtr addr
  | ErrorPtr addr
  | FunctionPtr addr
  | StringPtr addr
  | BuiltinPtr addr
  | ArrayPtr addr
  | HashPtr addr

text \<open>The \<^verbatim>\<open>Type()\<close> methods: each returns the constant of its receiver's type and
  reads no field.\<close>

fun Type :: "Object \<Rightarrow> ObjectType" where
  "Type (IntegerPtr i) = INTEGER_OBJ"
| "Type (BooleanPtr b) = BOOLEAN_OBJ"
| "Type (NullPtr n) = NULL_OBJ"
| "Type (ReturnValuePtr rv) = RETURN_VALUE_OBJ"
| "Type (ErrorPtr e) = ERROR_OBJ"
| "Type (FunctionPtr f) = FUNCTION_OBJ"
| "Type (StringPtr s) = STRING_OBJ"
| "Type (BuiltinPtr b) = BUILTIN_OBJ"
| "Type (ArrayPtr ao) = ARRAY_OBJ"
| "Type (HashPtr h) = HASH_OBJ"

record HashKey =
  hk_Type :: ObjectType
  hk_Value :: uint64

text \<open>The private field \<^verbatim>\<open>hashKey *HashKey\<close> is \<open>None\<close> for nil. The struct it
  points to is written once, before the pointer is stored, and never again.\<close>

record Integer =
  int_Value :: int64
  int_hashKey :: "HashKey option"

record Boolean =
  bool_Value :: bool
  bool_hashKey :: "HashKey option"

record String =
  str_Value :: string
  str_hashKey :: "HashKey option"

record HashPair =
  Key :: Object
  Value :: Object

type_synonym HashChain = "HashPair list"

record Hash =
  Pairs :: "HashKey \<rightharpoonup> HashChain"

text \<open>\<^verbatim>\<open>outer *Environment\<close> is \<open>None\<close> for nil.\<close>

record Environment =
  store :: "string \<rightharpoonup> Object"
  outer :: "addr option"

text \<open>
  The memory: the two package-level variables \<^verbatim>\<open>TRUE\<close> and \<^verbatim>\<open>FALSE\<close>, one
  table per struct type that the functions below read or write, and the first address
  not yet handed out by an allocation.
\<close>

record memory =
  TRUE :: addr
  FALSE :: addr
  integers :: "addr \<Rightarrow> Integer"
  booleans :: "addr \<Rightarrow> Boolean"
  strings :: "addr \<Rightarrow> String"
  hashes :: "addr \<Rightarrow> Hash"
  environments :: "addr \<Rightarrow> Environment"
  limit :: addr

text \<open>
  The state after package initialisation: the initialisers of \<^verbatim>\<open>TRUE\<close> and
  \<^verbatim>\<open>FALSE\<close> have allocated one \<^verbatim>\<open>Boolean\<close> each, and nothing else exists.
\<close>

definition package_init :: memory where
  "package_init =
     \<lparr>TRUE = 0, FALSE = 1,
      integers = (\<lambda>p. \<lparr>int_Value = 0, int_hashKey = None\<rparr>),
      booleans = (\<lambda>p. \<lparr>bool_Value = False, bool_hashKey = None\<rparr>)
                   (0 := \<lparr>bool_Value = True, bool_hashKey = None\<rparr>,
                    1 := \<lparr>bool_Value = False, bool_hashKey = None\<rparr>),
      strings = (\<lambda>p. \<lparr>str_Value = [], str_hashKey = None\<rparr>),
      hashes = (\<lambda>p. \<lparr>Pairs = Map.empty\<rparr>),
      environments = (\<lambda>p. \<lparr>store = Map.empty, outer = None\<rparr>),
      limit = 2\<rparr>"

subsection \<open>Hash keys\<close>

text \<open>The conversion \<^verbatim>\<open>uint64(v)\<close> of an \<^verbatim>\<open>int64\<close>: the signed value, reduced
  modulo \<open>2 ^ 64\<close>.\<close>

definition uint64_of_int64 :: "int64 \<Rightarrow> uint64" where
  "uint64_of_int64 v = word_of_int (sint v)"

definition Integer_HashKey :: "addr \<Rightarrow> memory \<Rightarrow> HashKey \<times> memory" where
  "Integer_HashKey i m =
     (case int_hashKey (integers m i) of
        Some cached \<Rightarrow> (cached, m)
      | None \<Rightarrow>
          (let hash = \<lparr>hk_Type = Type (IntegerPtr i),
                       hk_Value = uint64_of_int64 (int_Value (integers m i))\<rparr>
           in (hash,
               m\<lparr>integers := (integers m)(i := (integers m i)\<lparr>int_hashKey := Some hash\<rparr>)\<rparr>)))"

definition NewInteger :: "int64 \<Rightarrow> memory \<Rightarrow> addr \<times> memory" where
  "NewInteger v m =
     (limit m,
      m\<lparr>integers := (integers m)(limit m := \<lparr>int_Value = v, int_hashKey = None\<rparr>),
        limit := Suc (limit m)\<rparr>)"

definition Boolean_HashKey :: "addr \<Rightarrow> memory \<Rightarrow> HashKey \<times> memory" where
  "Boolean_HashKey b m =
     (case bool_hashKey (booleans m b) of
        Some cached \<Rightarrow> (cached, m)
      | None \<Rightarrow>
          (let v = (if bool_Value (booleans m b) then 1 else 0);
               hash = \<lparr>hk_Type = Type (BooleanPtr b), hk_Value = v\<rparr>
           in (hash,
               m\<lparr>booleans := (booleans m)(b := (booleans m b)\<lparr>bool_hashKey := Some hash\<rparr>)\<rparr>)))"

definition GetBooleanObject :: "bool \<Rightarrow> memory \<Rightarrow> addr" where
  "GetBooleanObject input m = (if input then TRUE m else FALSE m)"

text \<open>
  \<^verbatim>\<open>hash/fnv\<close> of the Go standard library, 64-bit FNV-1a: \<^verbatim>\<open>New64a\<close> starts from
  the offset basis, \<^verbatim>\<open>Write\<close> folds each byte in by exclusive-or and then multiplies by
  the prime, \<^verbatim>\<open>Sum64\<close> returns the state.
\<close>

definition offset64 :: uint64 where
  "offset64 = 14695981039346656037"

definition prime64 :: uint64 where
  "prime64 = 1099511628211"

fun sum64a_Write :: "uint64 \<Rightarrow> string \<Rightarrow> uint64" where
  "sum64a_Write hash [] = hash"
| "sum64a_Write hash (c # data) = sum64a_Write ((hash XOR of_char c) * prime64) data"

definition String_HashKey :: "addr \<Rightarrow> memory \<Rightarrow> HashKey \<times> memory" where
  "String_HashKey s m =
     (case str_hashKey (strings m s) of
        Some cached \<Rightarrow> (cached, m)
      | None \<Rightarrow>
          (let hash = \<lparr>hk_Type = Type (StringPtr s),
                       hk_Value = sum64a_Write offset64 (str_Value (strings m s))\<rparr>
           in (hash,
               m\<lparr>strings := (strings m)(s := (strings m s)\<lparr>str_hashKey := Some hash\<rparr>)\<rparr>)))"

definition NewString :: "string \<Rightarrow> memory \<Rightarrow> addr \<times> memory" where
  "NewString v m =
     (limit m,
      m\<lparr>strings := (strings m)(limit m := \<lparr>str_Value = v, str_hashKey = None\<rparr>),
        limit := Suc (limit m)\<rparr>)"

text \<open>
  The interface \<^verbatim>\<open>Hashable\<close>: the three pointer types with a \<^verbatim>\<open>HashKey()\<close>
  method. \<open>as_Hashable\<close> is the type assertion \<^verbatim>\<open>key.(Hashable)\<close>, \<open>None\<close> when
  it reports \<^verbatim>\<open>ok == false\<close>.
\<close>

datatype Hashable =
    HashableInteger addr
  | HashableBoolean addr
  | HashableString addr

fun as_Hashable :: "Object \<Rightarrow> Hashable option" where
  "as_Hashable (IntegerPtr i) = Some (HashableInteger i)"
| "as_Hashable (BooleanPtr b) = Some (HashableBoolean b)"
| "as_Hashable (StringPtr s) = Some (HashableString s)"
| "as_Hashable (NullPtr n) = None"
| "as_Hashable (ReturnValuePtr rv) = None"
| "as_Hashable (ErrorPtr e) = None"
| "as_Hashable (FunctionPtr f) = None"
| "as_Hashable (BuiltinPtr b) = None"
| "as_Hashable (ArrayPtr ao) = None"
| "as_Hashable (HashPtr h) = None"

fun Hashable_HashKey :: "Hashable \<Rightarrow> memory \<Rightarrow> HashKey \<times> memory" where
  "Hashable_HashKey (HashableInteger i) m = Integer_HashKey i m"
| "Hashable_HashKey (HashableBoolean b) m = Boolean_HashKey b m"
| "Hashable_HashKey (HashableString s) m = String_HashKey s m"

subsection \<open>The hash container\<close>

text \<open>
  \<^verbatim>\<open>compareObjects\<close>: after the guard on \<^verbatim>\<open>Type()\<close>, the type switch on \<open>a\<close>
  asserts \<open>b\<close> to the same pointer type. The inner default branches stand for a failed
  assertion; \<open>Type_eq_same_variant\<close> below shows that the guard excludes them.
\<close>

definition compareObjects :: "memory \<Rightarrow> Object \<Rightarrow> Object \<Rightarrow> bool" where
  "compareObjects m a b =
     (if Type a \<noteq> Type b then False
      else (case a of
              StringPtr p \<Rightarrow>
                (case b of
                   StringPtr q \<Rightarrow> str_Value (strings m p) = str_Value (strings m q)
                 | _ \<Rightarrow> False)
            | IntegerPtr p \<Rightarrow>
                (case b of
                   IntegerPtr q \<Rightarrow> int_Value (integers m p) = int_Value (integers m q)
                 | _ \<Rightarrow> False)
            | BooleanPtr p \<Rightarrow>
                (case b of
                   BooleanPtr q \<Rightarrow> bool_Value (booleans m p) = bool_Value (booleans m q)
                 | _ \<Rightarrow> False)
            | _ \<Rightarrow> False))"

text \<open>\<^verbatim>\<open>FindPair\<close> returns the first pair of the chain whose key compares equal;
  \<open>None\<close> stands for the result \<^verbatim>\<open>(HashPair{}, false)\<close>.\<close>

fun FindPair :: "memory \<Rightarrow> HashChain \<Rightarrow> Object \<Rightarrow> HashPair option" where
  "FindPair m [] key = None"
| "FindPair m (pair # chain) key =
     (if compareObjects m (Key pair) key then Some pair else FindPair m chain key)"

definition NewHash :: "memory \<Rightarrow> addr \<times> memory" where
  "NewHash m =
     (limit m,
      m\<lparr>hashes := (hashes m)(limit m := \<lparr>Pairs = Map.empty\<rparr>), limit := Suc (limit m)\<rparr>)"

text \<open>Reading a Go map at a key it does not hold gives the zero value, here the nil
  slice, which has no elements.\<close>

definition chain_at :: "Hash \<Rightarrow> HashKey \<Rightarrow> HashChain" where
  "chain_at h k = (case Pairs h k of None \<Rightarrow> [] | Some chain \<Rightarrow> chain)"

text \<open>
  The loop of \<^verbatim>\<open>Add\<close> over the chain: at the first pair whose key compares equal it
  overwrites that element and returns the chain (\<open>Some\<close>); \<open>None\<close> when the loop runs
  to the end of the chain.
\<close>

fun Add_loop :: "memory \<Rightarrow> HashChain \<Rightarrow> Object \<Rightarrow> HashPair \<Rightarrow> HashChain option" where
  "Add_loop m [] key newPair = None"
| "Add_loop m (pair # chain) key newPair =
     (if compareObjects m (Key pair) key then Some (newPair # chain)
      else map_option ((#) pair) (Add_loop m chain key newPair))"

text \<open>\<^verbatim>\<open>Add\<close> returns the error (\<open>None\<close> for nil) and the memory it leaves.\<close>

definition Add :: "addr \<Rightarrow> Object \<Rightarrow> Object \<Rightarrow> memory \<Rightarrow> string option \<times> memory" where
  "Add h key val m =
     (case as_Hashable key of
        None \<Rightarrow> (Some (''unusable as hash key: '' @ Type key), m)
      | Some hashKey \<Rightarrow>
          (let (hashed, m1) = Hashable_HashKey hashKey m;
               chain = chain_at (hashes m1 h) hashed;
               newPair = \<lparr>Key = key, Value = val\<rparr>;
               chain' = (case Add_loop m1 chain key newPair of
                           Some updated \<Rightarrow> updated
                         | None \<Rightarrow> chain @ [newPair])
           in (None,
               m1\<lparr>hashes := (hashes m1)
                    (h := (hashes m1 h)\<lparr>Pairs := (Pairs (hashes m1 h))(hashed \<mapsto> chain')\<rparr>)\<rparr>)))"

subsection \<open>Environments\<close>

definition NewEnvironment :: "memory \<Rightarrow> addr \<times> memory" where
  "NewEnvironment m =
     (limit m,
      m\<lparr>environments := (environments m)(limit m := \<lparr>store = Map.empty, outer = None\<rparr>),
        limit := Suc (limit m)\<rparr>)"

definition NewClosedEnvironment :: "addr option \<Rightarrow> memory \<Rightarrow> addr \<times> memory" where
  "NewClosedEnvironment outr m =
     (let (env, m1) = NewEnvironment m
      in (env,
          m1\<lparr>environments := (environments m1)(env := (environments m1 env)\<lparr>outer := outr\<rparr>)\<rparr>))"

text \<open>
  \<^verbatim>\<open>Get\<close> calls itself on the outer environment, so on a cyclic chain of outer
  pointers it would not return: the result is \<open>None\<close> when the call does not return,
  \<open>Some None\<close> for \<^verbatim>\<open>(nil, false)\<close> and \<open>Some (Some obj)\<close> for \<^verbatim>\<open>(obj, true)\<close>.
\<close>

partial_function (option) Get :: "addr \<Rightarrow> string \<Rightarrow> memory \<Rightarrow> Object option option" where
  "Get e name m =
     (case store (environments m e) name of
        Some obj \<Rightarrow> Some (Some obj)
      | None \<Rightarrow>
          (case outer (environments m e) of
             None \<Rightarrow> Some None
           | Some out \<Rightarrow> Get out name m))"

definition Set :: "addr \<Rightarrow> string \<Rightarrow> Object \<Rightarrow> memory \<Rightarrow> Object \<times> memory" where
  "Set e name val m =
     (val,
      m\<lparr>environments := (environments m)
           (e := (environments m e)\<lparr>store := (store (environments m e))(name \<mapsto> val)\<rparr>)\<rparr>)"

section \<open>Notions used in the statements\<close>

text \<open>Two memories agree on the \<^verbatim>\<open>Value\<close> field of every Integer, Boolean and
  String: all that \<^verbatim>\<open>compareObjects\<close> reads.\<close>

definition same_values :: "memory \<Rightarrow> memory \<Rightarrow> bool" where
  "same_values m m' \<longleftrightarrow>
     (\<forall>p. int_Value (integers m' p) = int_Value (integers m p)) \<and>
     (\<forall>p. bool_Value (booleans m' p) = bool_Value (booleans m p)) \<and>
     (\<forall>p. str_Value (strings m' p) = str_Value (strings m p))"


text \<open>The cached digest of a hashable object, \<open>None\<close> while the field is nil.\<close>

fun cached :: "Hashable \<Rightarrow> memory \<Rightarrow> HashKey option" where
  "cached (HashableInteger i) m = int_hashKey (integers m i)"
| "cached (HashableBoolean b) m = bool_hashKey (booleans m b)"
| "cached (HashableString s) m = str_hashKey (strings m s)"


text \<open>The chain that \<^verbatim>\<open>Add\<close> stores back: the loop's result, or the chain with the
  new pair appended.\<close>

definition Add_chain :: "memory \<Rightarrow> HashChain \<Rightarrow> Object \<Rightarrow> Object \<Rightarrow> HashChain" where
  "Add_chain m chain key val =
     (case Add_loop m chain key \<lparr>Key = key, Value = val\<rparr> of
        Some updated \<Rightarrow> updated | None \<Rightarrow> chain @ [\<lparr>Key = key, Value = val\<rparr>])"


text \<open>A memory for concrete runs: the Integer 7 at address 2 and an empty hash at
  address 3.\<close>

definition example_memory :: memory where
  "example_memory = snd (NewHash (snd (NewInteger 7 package_init)))"


text \<open>A sequence of later calls of \<^verbatim>\<open>Add\<close>, each on a hash, a key and a value; the
  errors they return are dropped.\<close>

fun Adds :: "(addr \<times> Object \<times> Object) list \<Rightarrow> memory \<Rightarrow> memory" where
  "Adds [] m = m"
| "Adds ((h, key, val) # rest) m = Adds rest (snd (Add h key val m))"

text \<open>
  The cached digest of an object is current when \<^verbatim>\<open>HashKey()\<close> returns what it would
  compute afresh from the object's \<^verbatim>\<open>Value\<close>: the field is nil, or it was filled from
  the value the object still has.
\<close>

fun clear_cache :: "Hashable \<Rightarrow> memory \<Rightarrow> memory" where
  "clear_cache (HashableInteger i) m =
     m\<lparr>integers := (integers m)(i := (integers m i)\<lparr>int_hashKey := None\<rparr>)\<rparr>"
| "clear_cache (HashableBoolean b) m =
     m\<lparr>booleans := (booleans m)(b := (booleans m b)\<lparr>bool_hashKey := None\<rparr>)\<rparr>"
| "clear_cache (HashableString s) m =
     m\<lparr>strings := (strings m)(s := (strings m s)\<lparr>str_hashKey := None\<rparr>)\<rparr>"

definition digest_current :: "memory \<Rightarrow> Hashable \<Rightarrow> bool" where
  "digest_current m x \<longleftrightarrow>
     fst (Hashable_HashKey x m) = fst (Hashable_HashKey x (clear_cache x m))"

text \<open>A memory with a forced collision: the Strings \<^verbatim>\<open>a\<close> and \<^verbatim>\<open>b\<close> at addresses
  2 and 3 both carry the cached key \<^verbatim>\<open>{STRING, 5}\<close>; address 4 is an empty hash.\<close>

definition collision_memory :: memory where
  "collision_memory =
     package_init
       \<lparr>strings := (strings package_init)
          (2 := \<lparr>str_Value = ''a'', str_hashKey = Some \<lparr>hk_Type = STRING_OBJ, hk_Value = 5\<rparr>\<rparr>,
           3 := \<lparr>str_Value = ''b'', str_hashKey = Some \<lparr>hk_Type = STRING_OBJ, hk_Value = 5\<rparr>\<rparr>),
        limit := 5\<rparr>"

text \<open>
  FNV-1a, 64 bit, as the algorithm is published: start from the offset basis
  \<^verbatim>\<open>0xcbf29ce484222325\<close>; for each byte, exclusive-or it into the hash, then multiply by
  the prime \<^verbatim>\<open>0x100000001b3\<close>, modulo \<open>2 ^ 64\<close>.
\<close>

definition FNV1a_64 :: "string \<Rightarrow> uint64" where
  "FNV1a_64 s = fold (\<lambda>c h. (h XOR of_char c) * 0x100000001B3) s 0xCBF29CE484222325"

text \<open>
  The environments from \<open>e\<close> outwards: \<open>env_chain m e es\<close> holds when \<open>es\<close> lists
  \<open>e\<close>, its outer environment, the outer environment of that, and so on up to an
  environment with no outer one.
\<close>

fun env_chain :: "memory \<Rightarrow> addr \<Rightarrow> addr list \<Rightarrow> bool" where
  "env_chain m e [] = False"
| "env_chain m e [a] = (a = e \<and> outer (environments m e) = None)"
| "env_chain m e (a # b # rest) =
     (a = e \<and> outer (environments m e) = Some b \<and> env_chain m b (b # rest))"

text \<open>The binding of a name in the first environment of a list that has one.\<close>

fun first_binding :: "memory \<Rightarrow> addr list \<Rightarrow> string \<Rightarrow> Object option" where
  "first_binding m [] name = None"
| "first_binding m (a # rest) name =
     (case store (environments m a) name of
        Some obj \<Rightarrow> Some obj
      | None \<Rightarrow> first_binding m rest name)"

text \<open>A memory with two environments: the root at address 2 binds \<open>x\<close> and \<open>y\<close>, the
  environment at address 3, closed over the root, binds \<open>x\<close> again.\<close>

definition scopes_memory :: memory where
  "scopes_memory =
     snd (Set 3 ''x'' (IntegerPtr 6)
       (snd (NewClosedEnvironment (Some 2)
         (snd (Set 2 ''y'' (IntegerPtr 5)
           (snd (Set 2 ''x'' (IntegerPtr 4)
             (snd (NewEnvironment package_init)))))))))"

text \<open>
  The calls that write memory: every function of the package that allocates or assigns.
  The others (\<^verbatim>\<open>Type\<close>, \<^verbatim>\<open>Inspect\<close>, \<^verbatim>\<open>GetBooleanObject\<close>, \<^verbatim>\<open>Get\<close>, \<^verbatim>\<open>compareObjects\<close>,
  \<^verbatim>\<open>FindPair\<close>) only read. \<open>run\<close> performs a sequence of calls.
\<close>

datatype call =
    Call_NewInteger int64
  | Call_NewString string
  | Call_NewHash
  | Call_NewEnvironment
  | Call_NewClosedEnvironment "addr option"
  | Call_Set addr string Object
  | Call_HashKey Hashable
  | Call_Add addr Object Object

fun exec :: "call \<Rightarrow> memory \<Rightarrow> memory" where
  "exec (Call_NewInteger v) m = snd (NewInteger v m)"
| "exec (Call_NewString v) m = snd (NewString v m)"
| "exec Call_NewHash m = snd (NewHash m)"
| "exec Call_NewEnvironment m = snd (NewEnvironment m)"
| "exec (Call_NewClosedEnvironment out) m = snd (NewClosedEnvironment out m)"
| "exec (Call_Set e name val) m = snd (Set e name val m)"
| "exec (Call_HashKey x) m = snd (Hashable_HashKey x m)"
| "exec (Call_Add h key val) m = snd (Add h key val m)"

definition run :: "call list \<Rightarrow> memory \<Rightarrow> memory" where
  "run cs m = fold exec cs m"

text \<open>What no call changes: the two variables, and the \<^verbatim>\<open>Value\<close> of every Boolean.\<close>

definition same_Booleans :: "memory \<Rightarrow> memory \<Rightarrow> bool" where
  "same_Booleans m m' \<longleftrightarrow>
     TRUE m' = TRUE m \<and> FALSE m' = FALSE m \<and>
     (\<forall>p. bool_Value (booleans m' p) = bool_Value (booleans m p))"

section \<open>The read-eval-print loop (repl/repl.go)\<close>

text \<open>
  \<^verbatim>\<open>Start\<close> reads lines from \<^verbatim>\<open>in\<close> and writes to \<^verbatim>\<open>out\<close>. The input is the list of
  the lines that \<^verbatim>\<open>scanner.Scan()\<close> delivers before it first returns false. What the
  function does is recorded as a list of events: the strings written to \<^verbatim>\<open>out\<close>, and the
  calls of \<^verbatim>\<open>evaluator.Eval\<close> with the program, the environment and the memory they are
  given.

  The packages \<^verbatim>\<open>lexer\<close>, \<^verbatim>\<open>parser\<close> and \<^verbatim>\<open>evaluator\<close> are parameters of the model:
  \<open>parse line\<close> stands for \<^verbatim>\<open>parser.New(lexer.New(line))\<close> followed by \<^verbatim>\<open>ParseProgram()\<close> and
  \<^verbatim>\<open>Errors()\<close>, and gives the program and the error messages; \<open>Eval program env m\<close> is
  \<open>None\<close> when the evaluator does not return (then \<^verbatim>\<open>Start\<close> does not either), and else
  the object returned (\<open>None\<close> for nil) with the memory left; \<open>Inspect m obj\<close> is the
  \<^verbatim>\<open>Inspect()\<close> method. The text of \<^verbatim>\<open>MONKEY_FACE\<close> is the parameter \<open>face\<close>. Errors of the
  writes are ignored, as they are in the source.
\<close>

type_synonym 'p parser = "string \<Rightarrow> 'p \<times> string list"

type_synonym 'p evaluator = "'p \<Rightarrow> addr \<Rightarrow> memory \<Rightarrow> (Object option \<times> memory) option"

datatype 'p event = Write string | Evaluate 'p addr memory

definition PROMPT :: string where
  "PROMPT = ''>> ''"

definition printParserErrors :: "string \<Rightarrow> string list \<Rightarrow> 'p event list" where
  "printParserErrors face errors =
     Write face #
     Write (''Whoops! We ran into some monkey business here!'' @ [CHR 0x0A]) #
     Write ('' parser errors:'' @ [CHR 0x0A]) #
     map (\<lambda>msg. Write ([CHR 0x09] @ msg @ [CHR 0x0A])) errors"

text \<open>
  The \<^verbatim>\<open>for\<close> loop of \<^verbatim>\<open>Start\<close>, on the lines still to be scanned. The result is the events
  and the memory when the function returns, \<open>None\<close> when it does not.
\<close>

fun loop :: "'p parser \<Rightarrow> 'p evaluator \<Rightarrow> (memory \<Rightarrow> Object \<Rightarrow> string) \<Rightarrow> string \<Rightarrow>
    addr \<Rightarrow> string list \<Rightarrow> memory \<Rightarrow> 'p event list \<times> memory option" where
  "loop parse Eval Inspect face env [] m = ([Write PROMPT], Some m)"
| "loop parse Eval Inspect face env (line # rest) m =
     (let (program, errors) = parse line
      in if length errors \<noteq> 0 then
           (let (evs, r) = loop parse Eval Inspect face env rest m
            in (Write PROMPT # printParserErrors face errors @ evs, r))
         else
           (case Eval program env m of
              None \<Rightarrow> ([Write PROMPT, Evaluate program env m], None)
            | Some (evaluated, m1) \<Rightarrow>
                (let (evs, r) = loop parse Eval Inspect face env rest m1
                 in (Write PROMPT # Evaluate program env m #
                     (case evaluated of
                        None \<Rightarrow> []
                      | Some obj \<Rightarrow> [Write (Inspect m1 obj), Write [CHR 0x0A]]) @ evs,
                     r))))"

definition Start :: "'p parser \<Rightarrow> 'p evaluator \<Rightarrow> (memory \<Rightarrow> Object \<Rightarrow> string) \<Rightarrow> string \<Rightarrow>
    string list \<Rightarrow> memory \<Rightarrow> 'p event list \<times> memory option" where
  "Start parse Eval Inspect face lines m =
     (let (env, m0) = NewEnvironment m
      in loop parse Eval Inspect face env lines m0)"

subsection \<open>Notions used in the statements about the loop\<close>

text \<open>What a list of events wrote to \<^verbatim>\<open>out\<close>, and the calls of the evaluator in it.\<close>

fun written :: "'p event list \<Rightarrow> string" where
  "written [] = []"
| "written (Write s # evs) = s @ written evs"
| "written (Evaluate p e m # evs) = written evs"

fun evaluations :: "'p event list \<Rightarrow> ('p \<times> addr \<times> memory) list" where
  "evaluations [] = []"
| "evaluations (Write s # evs) = evaluations evs"
| "evaluations (Evaluate p e m # evs) = (p, e, m) # evaluations evs"

text \<open>
  The evaluator called on a list of programs, one after the other, each time with the
  same environment and the memory that the call before left: the calls made, and the
  memory after the last (\<open>None\<close> when a call does not return, which ends the list).
\<close>

fun replay :: "'p evaluator \<Rightarrow> addr \<Rightarrow> memory \<Rightarrow> 'p list \<Rightarrow>
    ('p \<times> addr \<times> memory) list \<times> memory option" where
  "replay Eval env m [] = ([], Some m)"
| "replay Eval env m (p # ps) =
     (case Eval p env m of
        None \<Rightarrow> ([(p, env, m)], None)
      | Some (evaluated, m1) \<Rightarrow>
          (let (calls, r) = replay Eval env m1 ps in ((p, env, m) # calls, r)))"

text \<open>The programs of the lines for which the parser reports no error.\<close>

definition accepted :: "'p parser \<Rightarrow> string list \<Rightarrow> 'p list" where
  "accepted parse lines = map (fst \<circ> parse) (filter (\<lambda>line. length (snd (parse line)) = 0) lines)"

text \<open>
  What the calls of the package keep of an environment allocated before them: the outer
  pointer, and every name bound in the store (the package has no call that removes a
  binding; \<^verbatim>\<open>Set\<close> may bind the name to another object).
\<close>

definition keeps_bindings :: "addr \<Rightarrow> memory \<Rightarrow> memory \<Rightarrow> bool" where
  "keeps_bindings e m m' \<longleftrightarrow>
     limit m \<le> limit m' \<and>
     outer (environments m' e) = outer (environments m e) \<and>
     dom (store (environments m e)) \<subseteq> dom (store (environments m' e))"

subsection \<open>An example session\<close>

text \<open>
  A parser and an evaluator to run the loop on: the line \<^verbatim>\<open>1 +\<close> has an error, every other
  line is its own program; evaluating a program binds its text to \<^verbatim>\<open>TRUE\<close> in the
  environment and returns that object.
\<close>

definition example_parse :: "string parser" where
  "example_parse line =
     (line, if line = ''1 +'' then [''no prefix parse function for EOF found''] else [])"

definition example_Eval :: "string evaluator" where
  "example_Eval p e m = (let (v, m1) = Set e p (BooleanPtr (TRUE m)) m in Some (Some v, m1))"

definition example_Inspect :: "memory \<Rightarrow> Object \<Rightarrow> string" where
  "example_Inspect m obj =
     (case obj of
        BooleanPtr a \<Rightarrow> if bool_Value (booleans m a) then ''true'' else ''false''
      | _ \<Rightarrow> [])"

section \<open>Properties of the hash container\<close>

lemmas ObjectType_defs =
  INTEGER_OBJ_def BOOLEAN_OBJ_def NULL_OBJ_def RETURN_VALUE_OBJ_def ERROR_OBJ_def
  FUNCTION_OBJ_def STRING_OBJ_def BUILTIN_OBJ_def ARRAY_OBJ_def HASH_OBJ_def

lemma Type_eq_same_variant:
  "Type a = Type b \<Longrightarrow>
     (\<exists>p q. a = IntegerPtr p \<and> b = IntegerPtr q) \<or>
     (\<exists>p q. a = BooleanPtr p \<and> b = BooleanPtr q) \<or>
     (\<exists>p q. a = NullPtr p \<and> b = NullPtr q) \<or>
     (\<exists>p q. a = ReturnValuePtr p \<and> b = ReturnValuePtr q) \<or>
     (\<exists>p q. a = ErrorPtr p \<and> b = ErrorPtr q) \<or>
     (\<exists>p q. a = FunctionPtr p \<and> b = FunctionPtr q) \<or>
     (\<exists>p q. a = StringPtr p \<and> b = StringPtr q) \<or>
     (\<exists>p q. a = BuiltinPtr p \<and> b = BuiltinPtr q) \<or>
     (\<exists>p q. a = ArrayPtr p \<and> b = ArrayPtr q) \<or>
     (\<exists>p q. a = HashPtr p \<and> b = HashPtr q)"
  by (cases a; cases b; simp add: ObjectType_defs)

lemma compareObjects_Integer:
  "compareObjects m (IntegerPtr p) b \<longleftrightarrow>
     (\<exists>q. b = IntegerPtr q \<and> int_Value (integers m p) = int_Value (integers m q))"
  by (cases b) (simp_all add: compareObjects_def ObjectType_defs)

lemma compareObjects_Boolean:
  "compareObjects m (BooleanPtr p) b \<longleftrightarrow>
     (\<exists>q. b = BooleanPtr q \<and> bool_Value (booleans m p) = bool_Value (booleans m q))"
  by (cases b) (simp_all add: compareObjects_def ObjectType_defs)

lemma compareObjects_String:
  "compareObjects m (StringPtr p) b \<longleftrightarrow>
     (\<exists>q. b = StringPtr q \<and> str_Value (strings m p) = str_Value (strings m q))"
  by (cases b) (simp_all add: compareObjects_def ObjectType_defs)

lemma compareObjects_other:
  "as_Hashable a = None \<Longrightarrow> \<not> compareObjects m a b"
  by (cases a) (simp_all add: compareObjects_def)

lemmas compareObjects_cases = compareObjects_Integer compareObjects_Boolean compareObjects_String

lemma compareObjects_refl: "as_Hashable a = Some x \<Longrightarrow> compareObjects m a a"
  by (cases a) (simp_all add: compareObjects_cases)

lemma compareObjects_sym: "compareObjects m a b \<Longrightarrow> compareObjects m b a"
  by (cases a) (auto simp add: compareObjects_cases compareObjects_other)

lemma compareObjects_trans:
  "compareObjects m a b \<Longrightarrow> compareObjects m b c \<Longrightarrow> compareObjects m a c"
  by (cases a) (auto simp add: compareObjects_cases compareObjects_other)

lemma compareObjects_Type: "compareObjects m a b \<Longrightarrow> Type a = Type b"
  by (cases a) (auto simp add: compareObjects_cases compareObjects_other)

lemma same_values_compareObjects:
  "same_values m m' \<Longrightarrow> compareObjects m' a b = compareObjects m a b"
  by (cases a; cases b) (simp_all add: compareObjects_def same_values_def)

lemma same_values_refl: "same_values m m" by (simp add: same_values_def)
lemma same_values_trans: "same_values m m1 \<Longrightarrow> same_values m1 m2 \<Longrightarrow> same_values m m2"
  by (simp add: same_values_def)

lemma same_values_FindPair:
  "same_values m m' \<Longrightarrow> FindPair m' chain key = FindPair m chain key"
  by (induction chain) (simp_all add: same_values_compareObjects)

lemma same_values_Add_loop:
  "same_values m m' \<Longrightarrow> Add_loop m' chain key np = Add_loop m chain key np"
  by (induction chain) (simp_all add: same_values_compareObjects)

lemma HashKey_same_values: "same_values m (snd (Hashable_HashKey x m))"
  by (cases x) (simp_all add: Integer_HashKey_def Boolean_HashKey_def String_HashKey_def
      same_values_def Let_def split: option.splits)

lemma HashKey_hashes: "hashes (snd (Hashable_HashKey x m)) = hashes m"
  by (cases x) (simp_all add: Integer_HashKey_def Boolean_HashKey_def String_HashKey_def
      Let_def split: option.splits)

lemma HashKey_cached:
  "Hashable_HashKey x (snd (Hashable_HashKey x m)) = Hashable_HashKey x m"
  by (cases x) (simp_all add: Integer_HashKey_def Boolean_HashKey_def String_HashKey_def
      Let_def split: option.splits)

lemma Add_loop_None_iff:
  "Add_loop m chain key np = None \<longleftrightarrow> (\<forall>pair\<in>set chain. \<not> compareObjects m (Key pair) key)"
  by (induction chain) simp_all

lemma FindPair_None_iff:
  "FindPair m chain key = None \<longleftrightarrow> (\<forall>pair\<in>set chain. \<not> compareObjects m (Key pair) key)"
  by (induction chain) simp_all

lemma Add_loop_Some:
  "Add_loop m chain key np = Some c \<Longrightarrow>
     \<exists>i<length chain. compareObjects m (Key (chain ! i)) key \<and>
       (\<forall>j<i. \<not> compareObjects m (Key (chain ! j)) key) \<and> c = chain[i := np]"
proof (induction chain arbitrary: c)
  case Nil
  then show ?case by simp
next
  case (Cons pair chain)
  show ?case
  proof (cases "compareObjects m (Key pair) key")
    case True
    with Cons.prems have "c = (pair # chain)[0 := np]" by auto
    with True show ?thesis by (intro exI [of _ 0]) simp
  next
    case False
    with Cons.prems obtain c' where c': "Add_loop m chain key np = Some c'" "c = pair # c'"
      by auto
    from Cons.IH [OF c'(1)] obtain i where i: "i < length chain"
      "compareObjects m (Key (chain ! i)) key"
      "\<forall>j<i. \<not> compareObjects m (Key (chain ! j)) key" "c' = chain[i := np]"
      by blast
    have "\<forall>j<Suc i. \<not> compareObjects m (Key ((pair # chain) ! j)) key"
      using False i(3) by (simp add: nth_Cons split: nat.splits)
    with i c'(2) show ?thesis
      by (intro exI [of _ "Suc i"]) simp
  qed
qed

lemma FindPair_Add_loop:
  "compareObjects m (Key np) key \<Longrightarrow> Add_loop m chain key np = Some c \<Longrightarrow>
     FindPair m c key = Some np"
  by (induction chain arbitrary: c) (auto split: if_splits)

lemma FindPair_append_new:
  "compareObjects m (Key np) key \<Longrightarrow> FindPair m chain key = None \<Longrightarrow>
     FindPair m (chain @ [np]) key = Some np"
  by (induction chain) (auto split: if_splits)

lemma HashKey_cached_Some: "cached x m = Some k \<Longrightarrow> Hashable_HashKey x m = (k, m)"
  by (cases x) (simp_all add: Integer_HashKey_def Boolean_HashKey_def String_HashKey_def)

lemma HashKey_sets_cache:
  "cached x (snd (Hashable_HashKey x m)) = Some (fst (Hashable_HashKey x m))"
  by (cases x) (simp_all add: Integer_HashKey_def Boolean_HashKey_def String_HashKey_def
      Let_def split: option.splits)

lemma cached_hashes_update: "cached x (m\<lparr>hashes := f\<rparr>) = cached x m"
  by (cases x) simp_all

lemma Add_hashable:
  assumes "as_Hashable key = Some x"
  shows "fst (Add h key val m) = None"
    and "same_values m (snd (Add h key val m))"
    and "chain_at (hashes (snd (Add h key val m)) h) k =
           (if k = fst (Hashable_HashKey x m)
            then Add_chain m (chain_at (hashes m h) k) key val
            else chain_at (hashes m h) k)"
    and "h' \<noteq> h \<Longrightarrow> hashes (snd (Add h key val m)) h' = hashes m h'"
    and "Hashable_HashKey x (snd (Add h key val m)) =
           (fst (Hashable_HashKey x m), snd (Add h key val m))"
proof -
  obtain hashed m1 where hk: "Hashable_HashKey x m = (hashed, m1)"
    by (cases "Hashable_HashKey x m")
  have sv: "same_values m m1" and hs: "hashes m1 = hashes m"
    using HashKey_same_values [of m x] HashKey_hashes [of x m] hk by simp_all
  have m': "snd (Add h key val m) =
      m1\<lparr>hashes := (hashes m1)(h := (hashes m1 h)
        \<lparr>Pairs := (Pairs (hashes m1 h))(hashed \<mapsto> Add_chain m (chain_at (hashes m h) hashed) key val)\<rparr>)\<rparr>"
    using assms hk by (simp add: Add_def Add_chain_def Let_def hs same_values_Add_loop [OF sv]
      cong: option.case_cong)
  show "fst (Add h key val m) = None"
    using assms hk by (simp add: Add_def Let_def)
  show "same_values m (snd (Add h key val m))"
    using sv by (simp add: m' same_values_def)
  show "chain_at (hashes (snd (Add h key val m)) h) k =
           (if k = fst (Hashable_HashKey x m)
            then Add_chain m (chain_at (hashes m h) k) key val
            else chain_at (hashes m h) k)"
    by (simp add: m' hk hs chain_at_def)
  show "h' \<noteq> h \<Longrightarrow> hashes (snd (Add h key val m)) h' = hashes m h'"
    by (simp add: m' hs)
  have "cached x m1 = Some hashed"
    using HashKey_sets_cache [of x m] hk by simp
  then have "cached x (snd (Add h key val m)) = Some hashed"
    by (simp only: m' cached_hashes_update)
  then show "Hashable_HashKey x (snd (Add h key val m)) =
           (fst (Hashable_HashKey x m), snd (Add h key val m))"
    using hk by (simp add: HashKey_cached_Some)
qed

lemma as_Hashable_None_iff:
  "as_Hashable key = None \<longleftrightarrow>
     (\<forall>p. key \<noteq> IntegerPtr p \<and> key \<noteq> BooleanPtr p \<and> key \<noteq> StringPtr p)"
  by (cases key) simp_all

text \<open>
  C4. A key that is not an Integer, a Boolean or a String does not implement
  \<^verbatim>\<open>Hashable\<close>: \<^verbatim>\<open>Add\<close> returns the error \<^verbatim>\<open>unusable as hash key: T\<close>, where
  \<open>T\<close> is the key's type, and leaves the whole memory, so every chain of every hash,
  as it was.
\<close>

theorem Add_unhashable:
  assumes "\<forall>p. key \<noteq> IntegerPtr p \<and> key \<noteq> BooleanPtr p \<and> key \<noteq> StringPtr p"
  shows "Add h key val m = (Some (''unusable as hash key: '' @ Type key), m)"
proof -
  from assms have "as_Hashable key = None"
    by (simp add: as_Hashable_None_iff)
  then show ?thesis
    by (simp add: Add_def)
qed

theorem Add_unhashable_witness:
  "(\<forall>p. ArrayPtr 3 \<noteq> IntegerPtr p \<and> ArrayPtr 3 \<noteq> BooleanPtr p \<and> ArrayPtr 3 \<noteq> StringPtr p) \<and>
   Add 2 (ArrayPtr 3) (IntegerPtr 4) package_init =
     (Some ''unusable as hash key: ARRAY'', package_init)"
  using Add_unhashable [of "ArrayPtr 3" 2 "IntegerPtr 4" package_init]
  by (simp add: ARRAY_OBJ_def)

text \<open>
  C1. For a hashable key, \<^verbatim>\<open>Add\<close> returns no error and changes only the chain stored
  under the key's \<^verbatim>\<open>HashKey\<close>. When that chain holds a pair whose key compares equal,
  the first such pair is overwritten in place by the new pair and the chain keeps its
  length; otherwise the new pair is appended at the end of the chain. Every other chain
  of the hash, and every other hash, is as before.
\<close>

theorem Add_replaces_or_appends:
  fixes key val :: Object and x :: Hashable and m :: memory and h :: addr
  assumes "as_Hashable key = Some x"
  defines "hashed \<equiv> fst (Hashable_HashKey x m)"
  defines "chain \<equiv> chain_at (hashes m h) hashed"
  defines "m' \<equiv> snd (Add h key val m)"
  defines "chain' \<equiv> chain_at (hashes m' h) hashed"
  defines "newPair \<equiv> \<lparr>Key = key, Value = val\<rparr>"
  shows "fst (Add h key val m) = None \<and>
    ((\<exists>pair\<in>set chain. compareObjects m (Key pair) key) \<longrightarrow>
       length chain' = length chain \<and>
       (\<exists>i<length chain. compareObjects m (Key (chain ! i)) key \<and>
          (\<forall>j<i. \<not> compareObjects m (Key (chain ! j)) key) \<and>
          chain' = chain[i := newPair])) \<and>
    ((\<forall>pair\<in>set chain. \<not> compareObjects m (Key pair) key) \<longrightarrow>
       chain' = chain @ [newPair]) \<and>
    (\<forall>k. k \<noteq> hashed \<longrightarrow> chain_at (hashes m' h) k = chain_at (hashes m h) k) \<and>
    (\<forall>h'. h' \<noteq> h \<longrightarrow> hashes m' h' = hashes m h')"
proof -
  have c': "chain' = Add_chain m chain key val"
    unfolding chain'_def m'_def chain_def hashed_def
    by (simp add: Add_hashable(3) [OF assms(1)])
  have replace: "length chain' = length chain \<and>
       (\<exists>i<length chain. compareObjects m (Key (chain ! i)) key \<and>
          (\<forall>j<i. \<not> compareObjects m (Key (chain ! j)) key) \<and>
          chain' = chain[i := newPair])"
    if "\<exists>pair\<in>set chain. compareObjects m (Key pair) key"
  proof -
    from that have "Add_loop m chain key newPair \<noteq> None"
      by (simp add: Add_loop_None_iff)
    then obtain c where c: "Add_loop m chain key newPair = Some c"
      by blast
    then have "chain' = c"
      by (simp add: c' Add_chain_def newPair_def)
    with Add_loop_Some [OF c] show ?thesis
      by auto
  qed
  have append: "chain' = chain @ [newPair]"
    if "\<forall>pair\<in>set chain. \<not> compareObjects m (Key pair) key"
  proof -
    from that have "Add_loop m chain key newPair = None"
      by (simp add: Add_loop_None_iff)
    then show ?thesis
      by (simp add: c' Add_chain_def newPair_def)
  qed
  have others: "chain_at (hashes m' h) k = chain_at (hashes m h) k" if "k \<noteq> hashed" for k
    using that unfolding m'_def hashed_def by (simp add: Add_hashable(3) [OF assms(1)])
  have hashes: "hashes m' h' = hashes m h'" if "h' \<noteq> h" for h'
    using that unfolding m'_def by (simp add: Add_hashable(4) [OF assms(1)])
  show ?thesis
    using Add_hashable(1) [OF assms(1)] replace append others hashes by blast
qed

lemmas example_defs = example_memory_def NewHash_def NewInteger_def package_init_def
  Integer_HashKey_def uint64_of_int64_def INTEGER_OBJ_def Add_def chain_at_def compareObjects_def
  Let_def



theorem Add_replaces_or_appends_witness:
  "as_Hashable (IntegerPtr 2) = Some (HashableInteger 2) \<and>
   chain_at (hashes example_memory 3) \<lparr>hk_Type = ''INTEGER'', hk_Value = 7\<rparr> = [] \<and>
   chain_at (hashes (snd (Add 3 (IntegerPtr 2) (BooleanPtr 0) example_memory)) 3)
      \<lparr>hk_Type = ''INTEGER'', hk_Value = 7\<rparr> = [\<lparr>Key = IntegerPtr 2, Value = BooleanPtr 0\<rparr>] \<and>
   chain_at (hashes (snd (Add 3 (IntegerPtr 2) (BooleanPtr 1)
       (snd (Add 3 (IntegerPtr 2) (BooleanPtr 0) example_memory)))) 3)
      \<lparr>hk_Type = ''INTEGER'', hk_Value = 7\<rparr> = [\<lparr>Key = IntegerPtr 2, Value = BooleanPtr 1\<rparr>]"
  using Add_replaces_or_appends [of "IntegerPtr 2" "HashableInteger 2" 3 "BooleanPtr 0" example_memory]
    Add_replaces_or_appends [of "IntegerPtr 2" "HashableInteger 2" 3 "BooleanPtr 1"
      "snd (Add 3 (IntegerPtr 2) (BooleanPtr 0) example_memory)"]
  by (simp add: example_defs)

lemma FindPair_Add_chain:
  assumes "as_Hashable key = Some x"
  shows "FindPair m (Add_chain m chain key val) key = Some \<lparr>Key = key, Value = val\<rparr>"
proof (cases "Add_loop m chain key \<lparr>Key = key, Value = val\<rparr>")
  case None
  then have "FindPair m chain key = None"
    by (simp add: Add_loop_None_iff FindPair_None_iff)
  with None show ?thesis
    by (simp add: Add_chain_def FindPair_append_new compareObjects_refl [OF assms])
next
  case (Some c)
  then show ?thesis
    by (simp add: Add_chain_def FindPair_Add_loop compareObjects_refl [OF assms])
qed

lemma FindPair_append_other:
  "\<not> compareObjects m (Key np) k \<Longrightarrow> FindPair m (chain @ [np]) k = FindPair m chain k"
  by (induction chain) simp_all

lemma FindPair_Add_loop_other:
  assumes "\<not> compareObjects m k (Key np)" "compareObjects m (Key np) key"
  shows "Add_loop m chain key np = Some c \<Longrightarrow> FindPair m c k = FindPair m chain k"
proof (induction chain arbitrary: c)
  case Nil
  then show ?case by simp
next
  case (Cons pair chain)
  have np: "\<not> compareObjects m (Key np) k"
    using assms(1) compareObjects_sym by blast
  show ?case
  proof (cases "compareObjects m (Key pair) key")
    case True
    have "\<not> compareObjects m (Key pair) k"
    proof
      assume "compareObjects m (Key pair) k"
      then have "compareObjects m k (Key pair)" by (rule compareObjects_sym)
      then have "compareObjects m k key" using True by (rule compareObjects_trans)
      moreover have "compareObjects m key (Key np)"
        using assms(2) by (rule compareObjects_sym)
      ultimately have "compareObjects m k (Key np)" by (rule compareObjects_trans)
      with assms(1) show False by simp
    qed
    with True Cons.prems np show ?thesis by auto
  next
    case False
    with Cons show ?thesis by auto
  qed
qed

lemma FindPair_Add_chain_other:
  assumes "as_Hashable key = Some x" "\<not> compareObjects m k key"
  shows "FindPair m (Add_chain m chain key val) k = FindPair m chain k"
proof -
  let ?np = "\<lparr>Key = key, Value = val\<rparr>"
  have refl: "compareObjects m (Key ?np) key"
    by (simp add: compareObjects_refl [OF assms(1)])
  have other: "\<not> compareObjects m k (Key ?np)"
    using assms(2) by simp
  show ?thesis
  proof (cases "Add_loop m chain key ?np")
    case None
    have "\<not> compareObjects m (Key ?np) k"
      using assms(2) compareObjects_sym by fastforce
    with None show ?thesis
      by (simp add: Add_chain_def FindPair_append_other)
  next
    case (Some c)
    with FindPair_Add_loop_other [OF other refl Some] show ?thesis
      by (simp add: Add_chain_def)
  qed
qed

lemma HashKey_keeps_cached:
  "cached y m = Some k \<Longrightarrow> cached y (snd (Hashable_HashKey x m)) = Some k"
  by (cases x; cases y)
    (auto simp add: Integer_HashKey_def Boolean_HashKey_def String_HashKey_def Let_def
      split: option.splits)

lemma Add_keeps_cached:
  "cached y m = Some k \<Longrightarrow> cached y (snd (Add h key val m)) = Some k"
  by (cases "as_Hashable key")
    (simp_all add: Add_def Let_def case_prod_beta cached_hashes_update HashKey_keeps_cached)

lemma Add_same_values: "same_values m (snd (Add h key val m))"
proof (cases "as_Hashable key")
  case None
  then show ?thesis by (simp add: Add_def same_values_refl)
next
  case (Some x)
  then show ?thesis by (rule Add_hashable(2))
qed

lemma Add_keeps_lookup:
  assumes "cached x m = Some hashed"
    and "FindPair m (chain_at (hashes m h) hashed) k = Some p"
    and "h' = h \<longrightarrow> \<not> compareObjects m k key"
  shows "FindPair (snd (Add h' key val m)) (chain_at (hashes (snd (Add h' key val m)) h) hashed) k
           = Some p"
proof (cases "as_Hashable key")
  case None
  with assms(2) show ?thesis by (simp add: Add_def)
next
  case (Some y)
  let ?m' = "snd (Add h' key val m)"
  have sv: "same_values m ?m'" by (rule Add_same_values)
  show ?thesis
  proof (cases "h' = h")
    case False
    then have "hashes ?m' h = hashes m h"
      using Add_hashable(4) [OF Some] by simp
    with assms(2) show ?thesis
      by (simp add: same_values_FindPair [OF sv])
  next
    case True
    with assms(3) have ne: "\<not> compareObjects m k key" by simp
    have "chain_at (hashes ?m' h) hashed =
        (if hashed = fst (Hashable_HashKey y m)
         then Add_chain m (chain_at (hashes m h) hashed) key val
         else chain_at (hashes m h) hashed)"
      using Add_hashable(3) [OF Some, of h val m hashed] True by simp
    with assms(2) show ?thesis
      by (auto simp add: same_values_FindPair [OF sv] FindPair_Add_chain_other [OF Some ne])
  qed
qed

lemma Add_lookup_new:
  fixes k v :: Object and m :: memory and h :: addr
  assumes "as_Hashable k = Some x"
  defines "m1 \<equiv> snd (Add h k v m)"
  shows "cached x m1 = Some (fst (Hashable_HashKey x m))"
    and "FindPair m1 (chain_at (hashes m1 h) (fst (Hashable_HashKey x m))) k
           = Some \<lparr>Key = k, Value = v\<rparr>"
proof -
  have sv: "same_values m m1" unfolding m1_def by (rule Add_same_values)
  have "Hashable_HashKey x m1 = (fst (Hashable_HashKey x m), m1)"
    unfolding m1_def by (rule Add_hashable(5) [OF assms(1)])
  then have "fst (Hashable_HashKey x m1) = fst (Hashable_HashKey x m)"
    "snd (Hashable_HashKey x m1) = m1" by simp_all
  with HashKey_sets_cache [of x m1]
  show "cached x m1 = Some (fst (Hashable_HashKey x m))" by simp
  show "FindPair m1 (chain_at (hashes m1 h) (fst (Hashable_HashKey x m))) k
           = Some \<lparr>Key = k, Value = v\<rparr>"
    unfolding m1_def
    by (simp add: Add_hashable(3) [OF assms(1)] same_values_FindPair [OF sv [unfolded m1_def]]
        FindPair_Add_chain [OF assms(1)])
qed

lemma cached_HashKey: "cached x m = Some k \<Longrightarrow> fst (Hashable_HashKey x m) = k"
  by (simp add: HashKey_cached_Some)

lemma compareObjects_Type_neq: "Type a \<noteq> Type b \<Longrightarrow> \<not> compareObjects m a b"
  by (simp add: compareObjects_def)

lemma fresh_HashKey_Type:
  "as_Hashable a = Some y \<Longrightarrow> cached y m = None \<Longrightarrow> hk_Type (fst (Hashable_HashKey y m)) = Type a"
  by (cases a) (auto simp add: Integer_HashKey_def Boolean_HashKey_def String_HashKey_def Let_def)

text \<open>
  C2. Two hashable keys that do not compare equal are both retrievable after they have
  been added to the same hash, whatever their \<^verbatim>\<open>HashKey\<close>s are, so also when the two
  keys are equal and both pairs sit in one chain: \<^verbatim>\<open>FindPair\<close> on the chain of the first
  key yields the first pair, and on the chain of the second key the second pair. Objects
  of different types never compare equal, and the \<^verbatim>\<open>HashKey\<close> computed for an object
  carries the object's type.
\<close>

theorem colliding_keys_both_retrievable:
  fixes k1 v1 k2 v2 :: Object and m :: memory and h :: addr
  assumes k1: "as_Hashable k1 = Some x1" and k2: "as_Hashable k2 = Some x2"
    and ne: "\<not> compareObjects m k1 k2"
  defines "m' \<equiv> snd (Add h k2 v2 (snd (Add h k1 v1 m)))"
  shows "FindPair m' (chain_at (hashes m' h) (fst (Hashable_HashKey x1 m'))) k1
           = Some \<lparr>Key = k1, Value = v1\<rparr> \<and>
         FindPair m' (chain_at (hashes m' h) (fst (Hashable_HashKey x2 m'))) k2
           = Some \<lparr>Key = k2, Value = v2\<rparr> \<and>
         (\<forall>a b mm. Type a \<noteq> Type b \<longrightarrow> \<not> compareObjects mm a b) \<and>
         (\<forall>a y mm. as_Hashable a = Some y \<and> cached y mm = None \<longrightarrow>
            hk_Type (fst (Hashable_HashKey y mm)) = Type a)"
proof -
  let ?m1 = "snd (Add h k1 v1 m)"
  let ?h1 = "fst (Hashable_HashKey x1 m)"
  let ?h2 = "fst (Hashable_HashKey x2 ?m1)"
  have sv: "same_values m ?m1" by (rule Add_same_values)
  have c1: "cached x1 ?m1 = Some ?h1"
    and f1: "FindPair ?m1 (chain_at (hashes ?m1 h) ?h1) k1 = Some \<lparr>Key = k1, Value = v1\<rparr>"
    using Add_lookup_new [OF k1] by simp_all
  have ne1: "h = h \<longrightarrow> \<not> compareObjects ?m1 k1 k2"
    using ne by (simp add: same_values_compareObjects [OF sv])
  have "cached x1 m' = Some ?h1"
    unfolding m'_def using c1 by (rule Add_keeps_cached)
  then have key1: "fst (Hashable_HashKey x1 m') = ?h1"
    by (rule cached_HashKey)
  have find1: "FindPair m' (chain_at (hashes m' h) ?h1) k1 = Some \<lparr>Key = k1, Value = v1\<rparr>"
    unfolding m'_def using c1 f1 ne1 by (rule Add_keeps_lookup)
  have c2: "cached x2 m' = Some ?h2"
    and find2: "FindPair m' (chain_at (hashes m' h) ?h2) k2 = Some \<lparr>Key = k2, Value = v2\<rparr>"
    unfolding m'_def using Add_lookup_new [OF k2] by simp_all
  have key2: "fst (Hashable_HashKey x2 m') = ?h2"
    using c2 by (rule cached_HashKey)
  show ?thesis
    using find1 find2 compareObjects_Type_neq fresh_HashKey_Type
    by (simp add: key1 key2)
qed

lemmas collision_defs = collision_memory_def package_init_def compareObjects_def Add_def
  String_HashKey_def chain_at_def STRING_OBJ_def Let_def

theorem colliding_keys_both_retrievable_witness:
  "as_Hashable (StringPtr 2) = Some (HashableString 2) \<and>
   as_Hashable (StringPtr 3) = Some (HashableString 3) \<and>
   \<not> compareObjects collision_memory (StringPtr 2) (StringPtr 3) \<and>
   fst (Hashable_HashKey (HashableString 2) collision_memory) =
     fst (Hashable_HashKey (HashableString 3) collision_memory) \<and>
   chain_at (hashes (snd (Add 4 (StringPtr 3) (BooleanPtr 1)
       (snd (Add 4 (StringPtr 2) (BooleanPtr 0) collision_memory)))) 4)
     \<lparr>hk_Type = ''STRING'', hk_Value = 5\<rparr> =
     [\<lparr>Key = StringPtr 2, Value = BooleanPtr 0\<rparr>, \<lparr>Key = StringPtr 3, Value = BooleanPtr 1\<rparr>] \<and>
   FindPair collision_memory
     [\<lparr>Key = StringPtr 2, Value = BooleanPtr 0\<rparr>, \<lparr>Key = StringPtr 3, Value = BooleanPtr 1\<rparr>]
     (StringPtr 3) = Some \<lparr>Key = StringPtr 3, Value = BooleanPtr 1\<rparr>"
  using colliding_keys_both_retrievable [of "StringPtr 2" "HashableString 2" "StringPtr 3"
      "HashableString 3" collision_memory 4 "BooleanPtr 1" "BooleanPtr 0"]
  by (simp add: collision_defs)

lemma Adds_keeps_lookup:
  assumes "cached x m = Some hashed"
    and "FindPair m (chain_at (hashes m h) hashed) k = Some p"
    and "\<forall>(h', k', v')\<in>set later. h' = h \<longrightarrow> \<not> compareObjects m k k'"
  shows "cached x (Adds later m) = Some hashed \<and>
         FindPair (Adds later m) (chain_at (hashes (Adds later m) h) hashed) k = Some p"
  using assms
proof (induction later arbitrary: m)
  case Nil
  then show ?case by simp
next
  case (Cons a later)
  obtain h' k' v' where a: "a = (h', k', v')" by (cases a)
  let ?m' = "snd (Add h' k' v' m)"
  have sv: "same_values m ?m'" by (rule Add_same_values)
  have 1: "cached x ?m' = Some hashed"
    using Cons.prems(1) by (rule Add_keeps_cached)
  have "h' = h \<longrightarrow> \<not> compareObjects m k k'"
    using Cons.prems(3) a by simp
  with Cons.prems(1,2) have 2: "FindPair ?m' (chain_at (hashes ?m' h) hashed) k = Some p"
    by (rule Add_keeps_lookup)
  have 3: "\<forall>(h', k', v')\<in>set later. h' = h \<longrightarrow> \<not> compareObjects ?m' k k'"
    using Cons.prems(3) by (simp add: same_values_compareObjects [OF sv])
  from Cons.IH [OF 1 2 3] show ?case
    by (simp add: a)
qed

text \<open>
  C3. Round trip: after \<^verbatim>\<open>Add\<close> of a hashable key \<open>k\<close> with value \<open>v\<close>, which returns
  no error, \<^verbatim>\<open>FindPair\<close> for \<open>k\<close> on the chain under \<open>k\<close>'s \<^verbatim>\<open>HashKey\<close> returns the
  pair of \<open>k\<close> and \<open>v\<close>; and it still does after any sequence of later calls of
  \<^verbatim>\<open>Add\<close> in which every key added to the same hash does not compare equal to \<open>k\<close>.
\<close>

theorem Add_then_FindPair:
  fixes k v :: Object and m :: memory and h :: addr
  assumes k: "as_Hashable k = Some x"
    and later: "\<forall>(h', k', v')\<in>set later. h' = h \<longrightarrow> \<not> compareObjects m k k'"
  defines "m1 \<equiv> snd (Add h k v m)"
  defines "m2 \<equiv> Adds later m1"
  shows "fst (Add h k v m) = None \<and>
         FindPair m1 (chain_at (hashes m1 h) (fst (Hashable_HashKey x m1))) k
           = Some \<lparr>Key = k, Value = v\<rparr> \<and>
         FindPair m2 (chain_at (hashes m2 h) (fst (Hashable_HashKey x m2))) k
           = Some \<lparr>Key = k, Value = v\<rparr>"
proof -
  let ?hk = "fst (Hashable_HashKey x m)"
  have sv: "same_values m m1" unfolding m1_def by (rule Add_same_values)
  have c1: "cached x m1 = Some ?hk"
    and f1: "FindPair m1 (chain_at (hashes m1 h) ?hk) k = Some \<lparr>Key = k, Value = v\<rparr>"
    unfolding m1_def using Add_lookup_new [OF k] by simp_all
  have later1: "\<forall>(h', k', v')\<in>set later. h' = h \<longrightarrow> \<not> compareObjects m1 k k'"
    using later by (simp add: same_values_compareObjects [OF sv])
  from Adds_keeps_lookup [OF c1 f1 later1]
  have c2: "cached x m2 = Some ?hk"
    and f2: "FindPair m2 (chain_at (hashes m2 h) ?hk) k = Some \<lparr>Key = k, Value = v\<rparr>"
    unfolding m2_def by simp_all
  show ?thesis
    using f1 f2 Add_hashable(1) [OF k]
    by (simp add: cached_HashKey [OF c1] cached_HashKey [OF c2])
qed

theorem Add_then_FindPair_witness:
  "as_Hashable (IntegerPtr 2) = Some (HashableInteger 2) \<and>
   \<not> compareObjects example_memory (IntegerPtr 2) (BooleanPtr 1) \<and>
   \<not> compareObjects example_memory (IntegerPtr 2) (HashPtr 3) \<and>
   FindPair example_memory
     (chain_at (hashes (Adds [(3, BooleanPtr 1, IntegerPtr 2), (3, HashPtr 3, BooleanPtr 0)]
        (snd (Add 3 (IntegerPtr 2) (BooleanPtr 0) example_memory))) 3)
        \<lparr>hk_Type = ''INTEGER'', hk_Value = 7\<rparr>) (IntegerPtr 2)
     = Some \<lparr>Key = IntegerPtr 2, Value = BooleanPtr 0\<rparr>"
  using Add_then_FindPair [of "IntegerPtr 2" "HashableInteger 2"
      "[(3, BooleanPtr 1, IntegerPtr 2), (3, HashPtr 3, BooleanPtr 0)]" 3 example_memory
      "BooleanPtr 0"]
  by (simp add: example_defs Boolean_HashKey_def BOOLEAN_OBJ_def HASH_OBJ_def)

lemma sum64a_Write_fold:
  "sum64a_Write h s = fold (\<lambda>c h. (h XOR of_char c) * prime64) s h"
  by (induction s arbitrary: h) simp_all

lemma sum64a_is_FNV1a: "sum64a_Write offset64 s = FNV1a_64 s"
  by (simp add: sum64a_Write_fold FNV1a_64_def offset64_def prime64_def)

lemma FNV1a_64_a: "FNV1a_64 ''a'' = 0xAF63DC4C8601EC8C"
  by (simp add: FNV1a_64_def)

lemma FNV1a_64_abc: "sum64a_Write offset64 ''abc'' = 0xE71FA2190541574B"
  by (simp add: offset64_def prime64_def)

lemma uint64_of_int64_mod: "uint (uint64_of_int64 v) = sint v mod 2 ^ 64"
  unfolding uint64_of_int64_def by (simp only: uint_word_of_int len_num1 len_bit0 mult_1_right) simp

lemma uint64_of_int64_bits: "uint64_of_int64 v = v"
  by (simp add: uint64_of_int64_def)

lemma uint64_of_int64_neg: "uint (uint64_of_int64 (- 1)) = 18446744073709551615"
  by (simp add: uint64_of_int64_mod)

lemma Integer_HashKey_fresh:
  "int_hashKey (integers m i) = None \<Longrightarrow>
     fst (Integer_HashKey i m) =
       \<lparr>hk_Type = INTEGER_OBJ, hk_Value = uint64_of_int64 (int_Value (integers m i))\<rparr>"
  by (simp add: Integer_HashKey_def Let_def)

lemma Boolean_HashKey_fresh:
  "bool_hashKey (booleans m b) = None \<Longrightarrow>
     fst (Boolean_HashKey b m) =
       \<lparr>hk_Type = BOOLEAN_OBJ, hk_Value = (if bool_Value (booleans m b) then 1 else 0)\<rparr>"
  by (simp add: Boolean_HashKey_def Let_def)

lemma String_HashKey_fresh:
  "str_hashKey (strings m s) = None \<Longrightarrow>
     fst (String_HashKey s m) =
       \<lparr>hk_Type = STRING_OBJ, hk_Value = FNV1a_64 (str_Value (strings m s))\<rparr>"
  by (simp add: String_HashKey_def Let_def sum64a_is_FNV1a)

lemma NewInteger_fresh:
  "integers (snd (NewInteger v m)) (fst (NewInteger v m)) = \<lparr>int_Value = v, int_hashKey = None\<rparr>"
  by (simp add: NewInteger_def)

lemma NewString_fresh:
  "strings (snd (NewString v m)) (fst (NewString v m)) = \<lparr>str_Value = v, str_hashKey = None\<rparr>"
  by (simp add: NewString_def)

lemma package_init_Booleans:
  "booleans package_init (TRUE package_init) = \<lparr>bool_Value = True, bool_hashKey = None\<rparr>"
  "booleans package_init (FALSE package_init) = \<lparr>bool_Value = False, bool_hashKey = None\<rparr>"
  by (simp_all add: package_init_def)

text \<open>
  C5. The \<^verbatim>\<open>HashKey\<close> of an Integer whose digest is not yet cached, so of every Integer
  that \<^verbatim>\<open>NewInteger\<close> returns, is \<^verbatim>\<open>{INTEGER, uint64(Value)}\<close>, and \<^verbatim>\<open>uint64(Value)\<close>
  read as an unsigned number is the signed value modulo \<open>2 ^ 64\<close>; of such a Boolean,
  so of \<^verbatim>\<open>TRUE\<close> and \<^verbatim>\<open>FALSE\<close> as initialised, \<^verbatim>\<open>{BOOLEAN, 1}\<close> or \<^verbatim>\<open>{BOOLEAN, 0}\<close>;
  of such a String, so of every String that \<^verbatim>\<open>NewString\<close> returns, \<^verbatim>\<open>{STRING, h}\<close> with
  \<open>h\<close> the 64-bit FNV-1a hash of the bytes. The first call stores the key in the object;
  a call on an object that has a stored key returns that key and writes nothing, so
  every later call returns the same key.
\<close>

theorem HashKey_derivation:
  "(int_hashKey (integers m i) = None \<longrightarrow>
      fst (Integer_HashKey i m) =
        \<lparr>hk_Type = INTEGER_OBJ, hk_Value = uint64_of_int64 (int_Value (integers m i))\<rparr>) \<and>
   fst (Integer_HashKey (fst (NewInteger v m)) (snd (NewInteger v m))) =
     \<lparr>hk_Type = INTEGER_OBJ, hk_Value = uint64_of_int64 v\<rparr> \<and>
   uint (uint64_of_int64 v) = sint v mod 2 ^ 64 \<and>
   (bool_hashKey (booleans m b) = None \<longrightarrow>
      fst (Boolean_HashKey b m) =
        \<lparr>hk_Type = BOOLEAN_OBJ, hk_Value = (if bool_Value (booleans m b) then 1 else 0)\<rparr>) \<and>
   fst (Boolean_HashKey (TRUE package_init) package_init) =
     \<lparr>hk_Type = BOOLEAN_OBJ, hk_Value = 1\<rparr> \<and>
   fst (Boolean_HashKey (FALSE package_init) package_init) =
     \<lparr>hk_Type = BOOLEAN_OBJ, hk_Value = 0\<rparr> \<and>
   (str_hashKey (strings m s) = None \<longrightarrow>
      fst (String_HashKey s m) =
        \<lparr>hk_Type = STRING_OBJ, hk_Value = FNV1a_64 (str_Value (strings m s))\<rparr>) \<and>
   fst (String_HashKey (fst (NewString str m)) (snd (NewString str m))) =
     \<lparr>hk_Type = STRING_OBJ, hk_Value = FNV1a_64 str\<rparr> \<and>
   cached x (snd (Hashable_HashKey x m)) = Some (fst (Hashable_HashKey x m)) \<and>
   Hashable_HashKey x (snd (Hashable_HashKey x m)) =
     (fst (Hashable_HashKey x m), snd (Hashable_HashKey x m)) \<and>
   (\<forall>m2 k. cached x m2 = Some k \<longrightarrow> Hashable_HashKey x m2 = (k, m2))"
proof -
  have "fst (Integer_HashKey (fst (NewInteger v m)) (snd (NewInteger v m))) =
     \<lparr>hk_Type = INTEGER_OBJ, hk_Value = uint64_of_int64 v\<rparr>"
    by (simp add: Integer_HashKey_fresh NewInteger_fresh)
  moreover have "fst (String_HashKey (fst (NewString str m)) (snd (NewString str m))) =
     \<lparr>hk_Type = STRING_OBJ, hk_Value = FNV1a_64 str\<rparr>"
    by (simp add: String_HashKey_fresh NewString_fresh)
  moreover have "fst (Boolean_HashKey (TRUE package_init) package_init) =
     \<lparr>hk_Type = BOOLEAN_OBJ, hk_Value = 1\<rparr>"
    "fst (Boolean_HashKey (FALSE package_init) package_init) =
     \<lparr>hk_Type = BOOLEAN_OBJ, hk_Value = 0\<rparr>"
    by (simp_all add: Boolean_HashKey_fresh package_init_Booleans)
  moreover have "Hashable_HashKey x (snd (Hashable_HashKey x m)) =
     (fst (Hashable_HashKey x m), snd (Hashable_HashKey x m))"
    by (simp add: HashKey_cached)
  ultimately show ?thesis
    using Integer_HashKey_fresh Boolean_HashKey_fresh String_HashKey_fresh
      uint64_of_int64_mod HashKey_sets_cache HashKey_cached_Some
    by (intro conjI impI allI) simp_all
qed

theorem HashKey_derivation_witness:
  "int_hashKey (integers example_memory 2) = None \<and>
   fst (Integer_HashKey 2 example_memory) = \<lparr>hk_Type = ''INTEGER'', hk_Value = 7\<rparr> \<and>
   uint (uint64_of_int64 (- 1)) = 18446744073709551615 \<and>
   bool_hashKey (booleans example_memory 0) = None \<and>
   fst (Boolean_HashKey 0 example_memory) = \<lparr>hk_Type = ''BOOLEAN'', hk_Value = 1\<rparr> \<and>
   str_hashKey (strings (snd (NewString ''a'' example_memory)) 4) = None \<and>
   fst (String_HashKey 4 (snd (NewString ''a'' example_memory))) =
     \<lparr>hk_Type = ''STRING'', hk_Value = 0xAF63DC4C8601EC8C\<rparr> \<and>
   cached (HashableInteger 2) (snd (Integer_HashKey 2 example_memory)) =
     Some \<lparr>hk_Type = ''INTEGER'', hk_Value = 7\<rparr> \<and>
   Integer_HashKey 2 (snd (Integer_HashKey 2 example_memory)) =
     (\<lparr>hk_Type = ''INTEGER'', hk_Value = 7\<rparr>, snd (Integer_HashKey 2 example_memory))"
  using HashKey_derivation [of example_memory 2 "- 1" 0 4 "''a''" "HashableInteger 2"]
    HashKey_derivation [of "snd (NewString ''a'' example_memory)" 2 "- 1" 0 4 "''a''"
      "HashableInteger 2"]
  by (simp add: example_defs NewString_def Boolean_HashKey_def BOOLEAN_OBJ_def STRING_OBJ_def
      FNV1a_64_def)

lemma digest_current_iff:
  "digest_current m x \<longleftrightarrow>
     cached x m = None \<or> cached x m = Some (fst (Hashable_HashKey x (clear_cache x m)))"
  by (cases x)
    (auto simp add: digest_current_def Integer_HashKey_def Boolean_HashKey_def
      String_HashKey_def Let_def split: option.splits)

lemma fresh_key_eq:
  assumes "as_Hashable a = Some x" "as_Hashable b = Some y" "compareObjects m a b"
  shows "fst (Hashable_HashKey x (clear_cache x m)) = fst (Hashable_HashKey y (clear_cache y m))"
  using assms
  by (cases a)
    (auto simp add: compareObjects_cases Integer_HashKey_def Boolean_HashKey_def
      String_HashKey_def Let_def)

lemma HashKey_other_object:
  "fst (Hashable_HashKey y (snd (Hashable_HashKey x m))) = fst (Hashable_HashKey y m)"
  by (cases x; cases y)
    (auto simp add: Integer_HashKey_def Boolean_HashKey_def String_HashKey_def Let_def
      split: option.splits)

lemma digest_current_HashKey:
  "digest_current m y \<Longrightarrow> digest_current (snd (Hashable_HashKey x m)) y"
  by (cases x; cases y)
    (auto simp add: digest_current_def Integer_HashKey_def Boolean_HashKey_def
      String_HashKey_def Let_def split: option.splits)

lemma digest_current_hashes_update:
  "digest_current (m\<lparr>hashes := f\<rparr>) y = digest_current m y"
  by (cases y)
    (simp_all add: digest_current_def Integer_HashKey_def Boolean_HashKey_def
      String_HashKey_def Let_def split: option.splits)

lemma digest_current_Add:
  "digest_current m y \<Longrightarrow> digest_current (snd (Add h key val m)) y"
  by (cases "as_Hashable key")
    (simp_all add: Add_def Let_def case_prod_beta digest_current_hashes_update
      digest_current_HashKey)

lemma digest_current_NewInteger:
  "digest_current (snd (NewInteger v m)) (HashableInteger (fst (NewInteger v m)))"
  by (simp add: digest_current_def NewInteger_def Integer_HashKey_def Let_def)

lemma digest_current_NewString:
  "digest_current (snd (NewString v m)) (HashableString (fst (NewString v m)))"
  by (simp add: digest_current_def NewString_def String_HashKey_def Let_def)

lemma digest_current_package_init: "digest_current package_init x"
  by (cases x)
    (simp_all add: digest_current_def package_init_def Integer_HashKey_def Boolean_HashKey_def
      String_HashKey_def Let_def)

text \<open>
  Two hashable objects that compare equal have the same \<^verbatim>\<open>HashKey\<close>, whichever of the
  two calls comes first, when the digest cached on each of them, if any, is current.
\<close>

lemma current_digests_HashKey_eq:
  assumes "as_Hashable a = Some x" and "as_Hashable b = Some y"
    and "compareObjects m a b"
    and "digest_current m x" and "digest_current m y"
  shows "fst (Hashable_HashKey x m) = fst (Hashable_HashKey y m) \<and>
         fst (Hashable_HashKey y (snd (Hashable_HashKey x m))) = fst (Hashable_HashKey x m) \<and>
         fst (Hashable_HashKey x (snd (Hashable_HashKey y m))) = fst (Hashable_HashKey y m)"
proof -
  have "fst (Hashable_HashKey x m) = fst (Hashable_HashKey x (clear_cache x m))"
    using assms(4) by (simp add: digest_current_def)
  also have "\<dots> = fst (Hashable_HashKey y (clear_cache y m))"
    using assms(1-3) by (rule fresh_key_eq)
  also have "\<dots> = fst (Hashable_HashKey y m)"
    using assms(5) by (simp add: digest_current_def)
  finally show ?thesis
    by (simp add: HashKey_other_object)
qed

lemma Get_first_binding:
  "env_chain m e es \<Longrightarrow> Get e name m = Some (first_binding m es name)"
proof (induction m e es rule: env_chain.induct)
  case (1 m e)
  then show ?case by simp
next
  case (2 m e a)
  then show ?case
    by (subst Get.simps) (simp split: option.splits)
next
  case (3 m e a b rest)
  then show ?case
    by (subst Get.simps) (simp split: option.splits)
qed

lemma first_binding_None_iff:
  "first_binding m es name = None \<longleftrightarrow> (\<forall>a\<in>set es. store (environments m a) name = None)"
  by (induction es) (auto split: option.splits)

lemma first_binding_innermost:
  "i < length es \<Longrightarrow> store (environments m (es ! i)) name = Some obj \<Longrightarrow>
   \<forall>j<i. store (environments m (es ! j)) name = None \<Longrightarrow>
   first_binding m es name = Some obj"
proof (induction es arbitrary: i)
  case Nil
  then show ?case by simp
next
  case (Cons a es)
  show ?case
  proof (cases i)
    case 0
    with Cons.prems show ?thesis by simp
  next
    case (Suc n)
    with Cons.prems have "store (environments m a) name = None"
      by auto
    moreover have "first_binding m es name = Some obj"
    proof (rule Cons.IH)
      show "n < length es" using Cons.prems(1) Suc by simp
      show "store (environments m (es ! n)) name = Some obj" using Cons.prems(2) Suc by simp
      show "\<forall>j<n. store (environments m (es ! j)) name = None"
        using Cons.prems(3) Suc by auto
    qed
    ultimately show ?thesis by simp
  qed
qed

lemma env_chain_hd: "env_chain m e es \<Longrightarrow> es \<noteq> [] \<and> hd es = e"
  by (induction m e es rule: env_chain.induct) simp_all

text \<open>
  C6. When the outer pointers from \<open>e\<close> lead to an environment with no outer one, through
  the environments \<open>es\<close>, \<^verbatim>\<open>Get\<close> returns; it returns the binding of the name in the
  innermost environment of \<open>es\<close> that has one, and it returns not-found exactly when no
  environment of \<open>es\<close> binds the name.
\<close>

theorem Get_innermost:
  assumes "env_chain m e es"
  shows "(\<exists>r. Get e name m = Some r) \<and>
         (Get e name m = Some None \<longleftrightarrow>
            (\<forall>a\<in>set es. store (environments m a) name = None)) \<and>
         (\<forall>i obj. i < length es \<and> store (environments m (es ! i)) name = Some obj \<and>
            (\<forall>j<i. store (environments m (es ! j)) name = None) \<longrightarrow>
            Get e name m = Some (Some obj))"
proof (intro conjI allI impI)
  show "\<exists>r. Get e name m = Some r"
    by (simp add: Get_first_binding [OF assms])
  show "Get e name m = Some None \<longleftrightarrow> (\<forall>a\<in>set es. store (environments m a) name = None)"
    by (simp add: Get_first_binding [OF assms] first_binding_None_iff)
next
  fix i obj
  assume "i < length es \<and> store (environments m (es ! i)) name = Some obj \<and>
    (\<forall>j<i. store (environments m (es ! j)) name = None)"
  then have "first_binding m es name = Some obj"
    by (intro first_binding_innermost [of i]) simp_all
  then show "Get e name m = Some (Some obj)"
    by (simp add: Get_first_binding [OF assms])
qed

text \<open>Every environment that \<^verbatim>\<open>NewEnvironment\<close> and \<^verbatim>\<open>NewClosedEnvironment\<close> build on
  allocated environments has such a chain, and \<^verbatim>\<open>Set\<close> keeps it.\<close>

lemma env_chain_cong:
  "\<forall>a\<in>set es. outer (environments m' a) = outer (environments m a) \<Longrightarrow>
   env_chain m' e es = env_chain m e es"
  by (induction m e es rule: env_chain.induct) auto

lemma NewEnvironment_chain:
  "env_chain (snd (NewEnvironment m)) (fst (NewEnvironment m)) [fst (NewEnvironment m)]"
  by (simp add: NewEnvironment_def)

lemma NewClosedEnvironment_None_chain:
  "env_chain (snd (NewClosedEnvironment None m)) (fst (NewClosedEnvironment None m))
     [fst (NewClosedEnvironment None m)]"
  by (simp add: NewClosedEnvironment_def NewEnvironment_def)

lemma NewClosedEnvironment_chain:
  assumes "env_chain m out es" and "\<forall>a\<in>set es. a < limit m"
  shows "env_chain (snd (NewClosedEnvironment (Some out) m))
           (fst (NewClosedEnvironment (Some out) m))
           (fst (NewClosedEnvironment (Some out) m) # es)"
proof -
  let ?m' = "snd (NewClosedEnvironment (Some out) m)"
  have "\<forall>a\<in>set es. outer (environments ?m' a) = outer (environments m a)"
    using assms(2) by (auto simp add: NewClosedEnvironment_def NewEnvironment_def)
  then have "env_chain ?m' out es = env_chain m out es"
    by (rule env_chain_cong)
  with assms(1) have "env_chain ?m' out es"
    by simp
  moreover obtain b rest where "es = b # rest" "b = out"
    using env_chain_hd [OF assms(1)] by (cases es) auto
  ultimately show ?thesis
    by (simp add: NewClosedEnvironment_def NewEnvironment_def)
qed

lemma Set_chain:
  "env_chain (snd (Set e' name val m)) e es = env_chain m e es"
  by (rule env_chain_cong) (simp add: Set_def)

lemmas scopes_defs = scopes_memory_def Set_def NewClosedEnvironment_def NewEnvironment_def
  package_init_def

theorem Get_innermost_witness:
  "env_chain scopes_memory 3 [3, 2] \<and>
   Get 3 ''x'' scopes_memory = Some (Some (IntegerPtr 6)) \<and>
   Get 3 ''y'' scopes_memory = Some (Some (IntegerPtr 5)) \<and>
   Get 3 ''z'' scopes_memory = Some None \<and>
   Get 2 ''x'' scopes_memory = Some (Some (IntegerPtr 4))"
proof -
  have c: "env_chain scopes_memory 3 [3, 2]"
    by (simp add: scopes_defs)
  have c2: "env_chain scopes_memory 2 [2]"
    by (simp add: scopes_defs)
  have s: "store (environments scopes_memory 3) ''x'' = Some (IntegerPtr 6)"
    "store (environments scopes_memory 3) ''y'' = None"
    "store (environments scopes_memory 3) ''z'' = None"
    "store (environments scopes_memory 2) ''x'' = Some (IntegerPtr 4)"
    "store (environments scopes_memory 2) ''y'' = Some (IntegerPtr 5)"
    "store (environments scopes_memory 2) ''z'' = None"
    by (simp_all add: scopes_defs)
  note inner = Get_innermost [OF c, THEN conjunct2, THEN conjunct2, rule_format]
  note root = Get_innermost [OF c2, THEN conjunct2, THEN conjunct2, rule_format]
  have "Get 3 ''x'' scopes_memory = Some (Some (IntegerPtr 6))"
    by (rule inner [of 0]) (simp add: s)
  moreover have "Get 3 ''y'' scopes_memory = Some (Some (IntegerPtr 5))"
    by (rule inner [of 1]) (simp add: s)
  moreover have "Get 3 ''z'' scopes_memory = Some None"
    using Get_innermost [OF c, of "''z''"] s by simp
  moreover have "Get 2 ''x'' scopes_memory = Some (Some (IntegerPtr 4))"
    by (rule root [of 0]) (simp add: s)
  ultimately show ?thesis using c by simp
qed

lemma same_Booleans_refl: "same_Booleans m m"
  by (simp add: same_Booleans_def)

lemma same_Booleans_trans:
  "same_Booleans m m1 \<Longrightarrow> same_Booleans m1 m2 \<Longrightarrow> same_Booleans m m2"
  by (simp add: same_Booleans_def)

lemma same_Booleans_hashes_update: "same_Booleans m (m'\<lparr>hashes := f\<rparr>) = same_Booleans m m'"
  by (simp add: same_Booleans_def)

lemma HashKey_same_Booleans: "same_Booleans m (snd (Hashable_HashKey x m))"
  by (cases x)
    (simp_all add: same_Booleans_def Integer_HashKey_def Boolean_HashKey_def
      String_HashKey_def Let_def split: option.splits)

lemma Add_same_Booleans: "same_Booleans m (snd (Add h key val m))"
  by (cases "as_Hashable key")
    (simp_all add: Add_def Let_def case_prod_beta same_Booleans_refl
      same_Booleans_hashes_update HashKey_same_Booleans)

lemma exec_same_Booleans: "same_Booleans m (exec c m)"
  by (cases c)
    (simp_all add: HashKey_same_Booleans Add_same_Booleans,
     simp_all add: same_Booleans_def NewInteger_def NewString_def NewHash_def
      NewEnvironment_def NewClosedEnvironment_def Set_def)

lemma run_same_Booleans: "same_Booleans m (run cs m)"
  unfolding run_def
proof (induction cs arbitrary: m)
  case Nil
  then show ?case by (simp add: same_Booleans_refl)
next
  case (Cons c cs)
  have "same_Booleans m (exec c m)" by (rule exec_same_Booleans)
  moreover have "same_Booleans (exec c m) (fold exec cs (exec c m))" by (rule Cons.IH)
  ultimately show ?case by (simp add: same_Booleans_trans)
qed

text \<open>
  C7. At any point of any run of the package's functions after initialisation,
  \<^verbatim>\<open>GetBooleanObject(true)\<close> returns the one address that \<^verbatim>\<open>TRUE\<close> was initialised with
  and \<^verbatim>\<open>GetBooleanObject(false)\<close> the one of \<^verbatim>\<open>FALSE\<close>; the two addresses differ; the
  Boolean found there has the value asked for; so two calls return the same instance
  exactly when they were given the same input, and no two distinct instances with equal
  values are handed out.
\<close>

theorem GetBooleanObject_singletons:
  "GetBooleanObject True (run cs package_init) = TRUE package_init \<and>
   GetBooleanObject False (run cs package_init) = FALSE package_init \<and>
   TRUE package_init \<noteq> FALSE package_init \<and>
   bool_Value (booleans (run cs package_init) (GetBooleanObject b (run cs package_init))) = b \<and>
   (GetBooleanObject b (run cs package_init) = GetBooleanObject b' (run cs' package_init)
      \<longleftrightarrow> b = b')"
proof -
  have inv: "TRUE (run cs package_init) = 0 \<and> FALSE (run cs package_init) = 1 \<and>
      bool_Value (booleans (run cs package_init) 0) \<and>
      \<not> bool_Value (booleans (run cs package_init) 1)" for cs
    using run_same_Booleans [of package_init cs]
    by (simp add: same_Booleans_def package_init_def)
  have init: "TRUE package_init = 0" "FALSE package_init = 1"
    by (simp_all add: package_init_def)
  show ?thesis
    using inv [of cs] inv [of cs']
    by (cases b; cases b') (simp_all add: GetBooleanObject_def init)
qed

theorem GetBooleanObject_singletons_witness:
  "GetBooleanObject True
     (run [Call_HashKey (HashableBoolean 0), Call_NewInteger 5,
           Call_Add 3 (BooleanPtr 0) (BooleanPtr 1)] package_init) = 0 \<and>
   GetBooleanObject False (run [Call_NewHash] package_init) = 1 \<and>
   GetBooleanObject True package_init = 0"
  using GetBooleanObject_singletons [of "[Call_HashKey (HashableBoolean 0), Call_NewInteger 5,
           Call_Add 3 (BooleanPtr 0) (BooleanPtr 1)]" True True "[]"]
    GetBooleanObject_singletons [of "[Call_NewHash]" True True "[]"]
  by (simp add: package_init_def GetBooleanObject_def run_def)

text \<open>The digests stay current through every run as well.\<close>

lemma digest_current_exec: "digest_current m y \<Longrightarrow> digest_current (exec c m) y"
  by (cases c)
    (simp_all add: digest_current_HashKey digest_current_Add,
     (cases y; simp add: digest_current_def NewInteger_def NewString_def NewHash_def
      NewEnvironment_def NewClosedEnvironment_def Set_def Integer_HashKey_def
      Boolean_HashKey_def String_HashKey_def Let_def split: option.splits)+)

lemma digest_current_run: "digest_current (run cs package_init) y"
proof -
  have "digest_current m y \<Longrightarrow> digest_current (fold exec cs m) y" for m
    by (induction cs arbitrary: m) (simp_all add: digest_current_exec)
  then show ?thesis
    by (simp add: run_def digest_current_package_init)
qed

text \<open>
  C10. At any point of any run of the package's functions after initialisation, two
  hashable objects that compare equal have the same \<^verbatim>\<open>HashKey\<close>, whichever of the two
  calls comes first: the \<^verbatim>\<open>Value\<close> fields are written at construction only and the
  \<^verbatim>\<open>hashKey\<close> fields by \<^verbatim>\<open>HashKey()\<close> only, from the value, so every cached digest is
  current (\<open>digest_current_run\<close>). So the chain that \<^verbatim>\<open>Add\<close> searches, the one under the
  new key's own \<^verbatim>\<open>HashKey\<close>, is the chain under the \<^verbatim>\<open>HashKey\<close> of every key that
  compares equal to it.
\<close>

theorem compareObjects_HashKey_eq:
  assumes "as_Hashable a = Some x" and "as_Hashable b = Some y"
    and "compareObjects (run cs package_init) a b"
  shows "fst (Hashable_HashKey x (run cs package_init)) =
           fst (Hashable_HashKey y (run cs package_init)) \<and>
         fst (Hashable_HashKey y (snd (Hashable_HashKey x (run cs package_init)))) =
           fst (Hashable_HashKey x (run cs package_init)) \<and>
         fst (Hashable_HashKey x (snd (Hashable_HashKey y (run cs package_init)))) =
           fst (Hashable_HashKey y (run cs package_init))"
  using assms
  by (intro current_digests_HashKey_eq [of a x b y "run cs package_init"] digest_current_run)

theorem compareObjects_HashKey_eq_witness:
  "as_Hashable (IntegerPtr 2) = Some (HashableInteger 2) \<and>
   as_Hashable (IntegerPtr 3) = Some (HashableInteger 3) \<and>
   compareObjects
     (run [Call_NewInteger 1, Call_HashKey (HashableInteger 2), Call_NewInteger 1]
        package_init) (IntegerPtr 2) (IntegerPtr 3) \<and>
   int_hashKey (integers
     (run [Call_NewInteger 1, Call_HashKey (HashableInteger 2), Call_NewInteger 1]
        package_init) 2) = Some \<lparr>hk_Type = ''INTEGER'', hk_Value = 1\<rparr> \<and>
   int_hashKey (integers
     (run [Call_NewInteger 1, Call_HashKey (HashableInteger 2), Call_NewInteger 1]
        package_init) 3) = None \<and>
   fst (Hashable_HashKey (HashableInteger 2)
     (run [Call_NewInteger 1, Call_HashKey (HashableInteger 2), Call_NewInteger 1]
        package_init)) = \<lparr>hk_Type = ''INTEGER'', hk_Value = 1\<rparr> \<and>
   fst (Hashable_HashKey (HashableInteger 3)
     (run [Call_NewInteger 1, Call_HashKey (HashableInteger 2), Call_NewInteger 1]
        package_init)) = \<lparr>hk_Type = ''INTEGER'', hk_Value = 1\<rparr>"
  using compareObjects_HashKey_eq [of "IntegerPtr 2" "HashableInteger 2" "IntegerPtr 3"
      "HashableInteger 3"
      "[Call_NewInteger 1, Call_HashKey (HashableInteger 2), Call_NewInteger 1]"]
  by (simp add: run_def package_init_def NewInteger_def compareObjects_def
      Integer_HashKey_def uint64_of_int64_def INTEGER_OBJ_def Let_def)

section \<open>Properties of the read-eval-print loop\<close>

lemma output_append: "written (xs @ ys) = written xs @ written ys"
  by (induction xs rule: written.induct) simp_all

lemma evaluations_append: "evaluations (xs @ ys) = evaluations xs @ evaluations ys"
  by (induction xs rule: evaluations.induct) simp_all

lemma evaluations_Writes: "evaluations (map (\<lambda>x. Write (f x)) xs) = []"
  by (induction xs) simp_all

lemma output_Writes: "written (map (\<lambda>x. Write (f x)) xs) = concat (map f xs)"
  by (induction xs) simp_all

lemma evaluations_printParserErrors: "evaluations (printParserErrors face errors) = []"
  by (simp add: printParserErrors_def evaluations_Writes)

lemma output_printParserErrors:
  "written (printParserErrors face errors) =
     face @ ''Whoops! We ran into some monkey business here!'' @ [CHR 0x0A] @
     '' parser errors:'' @ [CHR 0x0A] @
     concat (map (\<lambda>msg. [CHR 0x09] @ msg @ [CHR 0x0A]) errors)"
  by (simp add: printParserErrors_def output_Writes)

lemma loop_errors:
  assumes "snd (parse line) \<noteq> []"
  shows "loop parse Eval Inspect face env (line # rest) m =
    (Write PROMPT # printParserErrors face (snd (parse line)) @
       fst (loop parse Eval Inspect face env rest m),
     snd (loop parse Eval Inspect face env rest m))"
  using assms by (simp add: case_prod_beta)

lemma accepted_Nil: "accepted parse [] = []"
  by (simp add: accepted_def)

lemma accepted_Cons:
  "accepted parse (line # rest) =
     (if snd (parse line) = [] then fst (parse line) # accepted parse rest
      else accepted parse rest)"
  by (simp add: accepted_def)

lemma loop_replay:
  "(evaluations (fst (loop parse Eval Inspect face env lines m)),
    snd (loop parse Eval Inspect face env lines m)) =
   replay Eval env m (accepted parse lines)"
proof (induction lines arbitrary: m)
  case Nil
  then show ?case by (simp add: accepted_Nil)
next
  case (Cons line rest)
  show ?case
  proof (cases "snd (parse line) = []")
    case False
    then show ?thesis
      using Cons.IH [of m]
      by (simp add: case_prod_beta accepted_Cons evaluations_append
          evaluations_printParserErrors)
  next
    case True
    show ?thesis
    proof (cases "Eval (fst (parse line)) env m")
      case None
      then show ?thesis
        using True by (simp add: accepted_Cons case_prod_beta)
    next
      case (Some res)
      then show ?thesis
        using True Cons.IH [of "snd res", symmetric]
        by (cases "fst res")
          (simp_all add: accepted_Cons case_prod_beta evaluations_append)
    qed
  qed
qed

lemma replay_programs:
  "map fst (fst (replay Eval env m ps)) = take (length (fst (replay Eval env m ps))) ps"
  by (induction ps arbitrary: m) (simp_all add: case_prod_beta split: option.splits)

lemma replay_returns:
  "snd (replay Eval env m ps) \<noteq> None \<Longrightarrow> map fst (fst (replay Eval env m ps)) = ps"
  by (induction ps arbitrary: m) (auto simp add: case_prod_beta split: option.splits)

lemma replay_env:
  "map (fst \<circ> snd) (fst (replay Eval env m ps)) =
     replicate (length (fst (replay Eval env m ps))) env"
  by (induction ps arbitrary: m) (simp_all add: case_prod_beta split: option.splits)

lemma Start_replay:
  "(evaluations (fst (Start parse Eval Inspect face lines m)),
    snd (Start parse Eval Inspect face lines m)) =
   replay Eval (fst (NewEnvironment m)) (snd (NewEnvironment m)) (accepted parse lines)"
  by (simp add: Start_def case_prod_beta loop_replay)

lemma Start_evaluations:
  "evaluations (fst (Start parse Eval Inspect face lines m)) =
     fst (replay Eval (fst (NewEnvironment m)) (snd (NewEnvironment m)) (accepted parse lines))"
  using Start_replay [of parse Eval Inspect face lines m] by (metis fst_conv)

lemma Start_returns:
  "snd (Start parse Eval Inspect face lines m) =
     snd (replay Eval (fst (NewEnvironment m)) (snd (NewEnvironment m)) (accepted parse lines))"
  using Start_replay [of parse Eval Inspect face lines m] by (metis snd_conv)

lemmas repl_example_defs =
  example_parse_def example_Eval_def example_Inspect_def Start_def NewEnvironment_def
  Set_def package_init_def PROMPT_def printParserErrors_def accepted_def

text \<open>
  C8. Whatever the state in which the loop comes to a line for which the parser reports
  errors: it writes the prompt, the face, the two heading lines and the error messages in
  their order, each after a tab and ended by a newline; it does not call the evaluator;
  and it goes on with the next line in the memory it had. Over a whole session, the
  programs the evaluator is called on are, in order, those of the lines with an empty
  error list: all of them when \<^verbatim>\<open>Start\<close> returns, and else those up to the call that does
  not return.
\<close>

theorem parser_errors_skip_Eval:
  "(snd (parse line) \<noteq> [] \<longrightarrow>
      loop parse Eval Inspect face env (line # rest) m =
        (Write PROMPT # printParserErrors face (snd (parse line)) @
           fst (loop parse Eval Inspect face env rest m),
         snd (loop parse Eval Inspect face env rest m)) \<and>
      evaluations (Write PROMPT # printParserErrors face (snd (parse line))) = [] \<and>
      written (Write PROMPT # printParserErrors face (snd (parse line))) =
        PROMPT @ face @ ''Whoops! We ran into some monkey business here!'' @ [CHR 0x0A] @
        '' parser errors:'' @ [CHR 0x0A] @
        concat (map (\<lambda>msg. [CHR 0x09] @ msg @ [CHR 0x0A]) (snd (parse line)))) \<and>
   map fst (evaluations (fst (Start parse Eval Inspect face lines m))) =
     take (length (evaluations (fst (Start parse Eval Inspect face lines m))))
       (accepted parse lines) \<and>
   (snd (Start parse Eval Inspect face lines m) \<noteq> None \<longrightarrow>
      map fst (evaluations (fst (Start parse Eval Inspect face lines m))) =
        accepted parse lines)"
proof (intro conjI impI)
  assume "snd (parse line) \<noteq> []"
  then show "loop parse Eval Inspect face env (line # rest) m =
        (Write PROMPT # printParserErrors face (snd (parse line)) @
           fst (loop parse Eval Inspect face env rest m),
         snd (loop parse Eval Inspect face env rest m))"
    by (rule loop_errors)
next
  show "evaluations (Write PROMPT # printParserErrors face (snd (parse line))) = []"
    by (simp add: evaluations_printParserErrors)
next
  show "written (Write PROMPT # printParserErrors face (snd (parse line))) =
        PROMPT @ face @ ''Whoops! We ran into some monkey business here!'' @ [CHR 0x0A] @
        '' parser errors:'' @ [CHR 0x0A] @
        concat (map (\<lambda>msg. [CHR 0x09] @ msg @ [CHR 0x0A]) (snd (parse line)))"
    by (simp add: output_printParserErrors)
next
  show "map fst (evaluations (fst (Start parse Eval Inspect face lines m))) =
     take (length (evaluations (fst (Start parse Eval Inspect face lines m))))
       (accepted parse lines)"
    by (simp only: Start_evaluations replay_programs)
next
  assume "snd (Start parse Eval Inspect face lines m) \<noteq> None"
  then show "map fst (evaluations (fst (Start parse Eval Inspect face lines m))) =
        accepted parse lines"
    unfolding Start_evaluations Start_returns by (rule replay_returns)
qed

theorem parser_errors_skip_Eval_witness:
  "snd (example_parse ''1 +'') \<noteq> [] \<and>
   written (fst (loop example_parse example_Eval example_Inspect ''(face)'' 2 [''1 +'']
       package_init)) =
     ''>> (face)Whoops! We ran into some monkey business here!'' @ [CHR 0x0A] @
     '' parser errors:'' @ [CHR 0x0A] @
     [CHR 0x09] @ ''no prefix parse function for EOF found'' @ [CHR 0x0A] @ ''>> '' \<and>
   snd (Start example_parse example_Eval example_Inspect ''(face)''
          [''a'', ''1 +'', ''b''] package_init) \<noteq> None \<and>
   map fst (evaluations (fst (Start example_parse example_Eval example_Inspect ''(face)''
          [''a'', ''1 +'', ''b''] package_init))) = [''a'', ''b'']"
  using parser_errors_skip_Eval [of example_parse "''1 +''" example_Eval example_Inspect
      "''(face)''" 2 "[]" package_init "[''a'', ''1 +'', ''b'']"]
  by (simp add: repl_example_defs)

text \<open>
  C9. \<^verbatim>\<open>Start\<close> allocates one environment, before the loop: it has an empty store and no
  outer environment. Every call of the evaluator in the session is given that
  environment. The first call is given the memory as the allocation left it, every later
  call the memory as the call before left it, and the memory when \<^verbatim>\<open>Start\<close> returns is
  the one the last call left: the loop itself allocates and assigns nothing, so a
  session is the evaluator run on the programs of the accepted lines, one after the
  other, in one environment.
\<close>

theorem Start_one_Environment:
  "environments (snd (NewEnvironment m)) (fst (NewEnvironment m)) =
     \<lparr>store = Map.empty, outer = None\<rparr> \<and>
   map (fst \<circ> snd) (evaluations (fst (Start parse Eval Inspect face lines m))) =
     replicate (length (evaluations (fst (Start parse Eval Inspect face lines m))))
       (fst (NewEnvironment m)) \<and>
   (evaluations (fst (Start parse Eval Inspect face lines m)),
    snd (Start parse Eval Inspect face lines m)) =
     replay Eval (fst (NewEnvironment m)) (snd (NewEnvironment m)) (accepted parse lines)"
proof (intro conjI)
  show "environments (snd (NewEnvironment m)) (fst (NewEnvironment m)) =
     \<lparr>store = Map.empty, outer = None\<rparr>"
    by (simp add: NewEnvironment_def)
next
  show "map (fst \<circ> snd) (evaluations (fst (Start parse Eval Inspect face lines m))) =
     replicate (length (evaluations (fst (Start parse Eval Inspect face lines m))))
       (fst (NewEnvironment m))"
    by (simp only: Start_evaluations replay_env)
next
  show "(evaluations (fst (Start parse Eval Inspect face lines m)),
    snd (Start parse Eval Inspect face lines m)) =
     replay Eval (fst (NewEnvironment m)) (snd (NewEnvironment m)) (accepted parse lines)"
    by (rule Start_replay)
qed

theorem Start_one_Environment_witness:
  "map (fst \<circ> snd) (evaluations (fst (Start example_parse example_Eval example_Inspect
      ''(face)'' [''a'', ''1 +'', ''b''] package_init))) = [2, 2] \<and>
   map (\<lambda>(p, e, m). store (environments m e) ''a'')
     (evaluations (fst (Start example_parse example_Eval example_Inspect
      ''(face)'' [''a'', ''1 +'', ''b''] package_init))) = [None, Some (BooleanPtr 0)]"
  using Start_one_Environment [of package_init example_parse example_Eval example_Inspect
      "''(face)''" "[''a'', ''1 +'', ''b'']"]
  by (simp add: repl_example_defs)

subsection \<open>Bindings of the session environment\<close>

lemma keeps_bindings_refl: "keeps_bindings e m m"
  by (simp add: keeps_bindings_def)

lemma keeps_bindings_trans:
  "keeps_bindings e m m1 \<Longrightarrow> keeps_bindings e m1 m2 \<Longrightarrow> keeps_bindings e m m2"
  by (auto simp add: keeps_bindings_def)

lemma HashKey_environments:
  "environments (snd (Hashable_HashKey x m)) = environments m \<and>
   limit (snd (Hashable_HashKey x m)) = limit m"
  by (cases x)
    (simp_all add: Integer_HashKey_def Boolean_HashKey_def String_HashKey_def Let_def
      split: option.splits)

lemma Add_environments:
  "environments (snd (Add h key val m)) = environments m \<and>
   limit (snd (Add h key val m)) = limit m"
  by (cases "as_Hashable key")
    (simp_all add: Add_def Let_def case_prod_beta HashKey_environments)

lemma exec_keeps_bindings: "e < limit m \<Longrightarrow> keeps_bindings e m (exec c m)"
  by (cases c)
    (auto simp add: keeps_bindings_def HashKey_environments Add_environments NewInteger_def
      NewString_def NewHash_def NewEnvironment_def NewClosedEnvironment_def Set_def)

lemma fold_exec_keeps_bindings: "e < limit m \<Longrightarrow> keeps_bindings e m (fold exec cs m)"
proof (induction cs arbitrary: m)
  case Nil
  then show ?case by (simp add: keeps_bindings_refl)
next
  case (Cons c cs)
  have step: "keeps_bindings e m (exec c m)"
    using Cons.prems by (rule exec_keeps_bindings)
  then have "e < limit (exec c m)"
    using Cons.prems by (simp add: keeps_bindings_def)
  then have "keeps_bindings e (exec c m) (fold exec cs (exec c m))"
    by (rule Cons.IH)
  with step show ?case
    by (simp add: keeps_bindings_trans)
qed

lemma run_keeps_bindings: "e < limit m \<Longrightarrow> keeps_bindings e m (run cs m)"
  by (simp add: run_def fold_exec_keeps_bindings)

text \<open>A name bound in an environment is found there after any run of the package's
  calls.\<close>

lemma bindings_persist:
  assumes "e < limit m" and "store (environments m e) name = Some obj"
  shows "\<exists>obj'. Get e name (run cs m) = Some (Some obj')"
proof -
  have "keeps_bindings e m (run cs m)"
    using assms(1) by (rule run_keeps_bindings)
  then have "name \<in> dom (store (environments (run cs m) e))"
    using assms(2) by (auto simp add: keeps_bindings_def)
  then obtain obj' where "store (environments (run cs m) e) name = Some obj'"
    by auto
  then have "Get e name (run cs m) = Some (Some obj')"
    by (subst Get.simps) simp
  then show ?thesis ..
qed

text \<open>
  In a session whose evaluator changes memory by calls of the package only, a name bound
  in the session environment when one evaluation starts is bound there when every later
  evaluation starts.
\<close>

lemma replay_keeps_bindings:
  assumes Eval: "\<And>p e m r m'. Eval p e m = Some (r, m') \<Longrightarrow> \<exists>cs. m' = run cs m"
    and "env < limit m"
    and "(p, e, m') \<in> set (fst (replay Eval env m ps))"
  shows "keeps_bindings env m m'"
  using assms(2,3)
proof (induction ps arbitrary: m)
  case Nil
  then show ?case by simp
next
  case (Cons q ps)
  show ?case
  proof (cases "Eval q env m")
    case None
    then show ?thesis
      using Cons.prems(2) by (simp add: keeps_bindings_refl)
  next
    case (Some res)
    then have "Eval q env m = Some (fst res, snd res)" by simp
    then obtain cs where cs: "snd res = run cs m"
      using Eval by blast
    have step: "keeps_bindings env m (snd res)"
      unfolding cs using Cons.prems(1) by (rule run_keeps_bindings)
    then have lim: "env < limit (snd res)"
      using Cons.prems(1) by (simp add: keeps_bindings_def)
    from Cons.prems(2) Some
    have "(p, e, m') = (q, env, m) \<or> (p, e, m') \<in> set (fst (replay Eval env (snd res) ps))"
      by (simp add: case_prod_beta)
    then show ?thesis
    proof
      assume "(p, e, m') = (q, env, m)"
      then show ?thesis by (simp add: keeps_bindings_refl)
    next
      assume "(p, e, m') \<in> set (fst (replay Eval env (snd res) ps))"
      with lim have "keeps_bindings env (snd res) m'"
        by (rule Cons.IH)
      with step show ?thesis
        by (rule keeps_bindings_trans)
    qed
  qed
qed

lemma replay_suffix:
  "fst (replay Eval env m ps) = xs @ (p, e, m1) # ys \<Longrightarrow>
   \<exists>qs. fst (replay Eval env m1 qs) = (p, e, m1) # ys"
proof (induction xs arbitrary: m ps)
  case Nil
  show ?case
  proof (cases ps)
    case Nil
    then show ?thesis using Nil.prems by simp
  next
    case (Cons a list)
    then have "m = m1"
      using Nil.prems by (simp add: case_prod_beta split: option.splits)
    then have "fst (replay Eval env m1 ps) = (p, e, m1) # ys"
      using Nil.prems by simp
    then show ?thesis ..
  qed
next
  case (Cons x xs)
  show ?case
  proof (cases ps)
    case Nil
    then show ?thesis using Cons.prems by simp
  next
    case ps: (Cons a list)
    show ?thesis
    proof (cases "Eval a env m")
      case None
      then show ?thesis using Cons.prems ps by simp
    next
      case (Some res)
      then have "fst (replay Eval env (snd res) list) = xs @ (p, e, m1) # ys"
        using Cons.prems ps by (simp add: case_prod_beta)
      then show ?thesis by (rule Cons.IH)
    qed
  qed
qed

lemma session_keeps_bindings:
  assumes Eval: "\<And>p e m r m'. Eval p e m = Some (r, m') \<Longrightarrow> \<exists>cs. m' = run cs m"
    and session: "evaluations (fst (Start parse Eval Inspect face lines m)) =
      xs @ (p1, e1, m1) # ys @ (p2, e2, m2) # zs"
    and bound: "store (environments m1 e1) name = Some obj"
  shows "e2 = e1 \<and> (\<exists>obj'. Get e2 name m2 = Some (Some obj'))"
proof -
  let ?root = "fst (NewEnvironment m)"
  let ?m0 = "snd (NewEnvironment m)"
  have calls: "fst (replay Eval ?root ?m0 (accepted parse lines)) =
      xs @ (p1, e1, m1) # ys @ (p2, e2, m2) # zs"
    using session by (simp only: Start_evaluations)
  have envs: "map (fst \<circ> snd) (xs @ (p1, e1, m1) # ys @ (p2, e2, m2) # zs) =
      replicate (length (xs @ (p1, e1, m1) # ys @ (p2, e2, m2) # zs)) ?root"
    using replay_env [of Eval ?root ?m0 "accepted parse lines"] by (simp only: calls)
  have "\<forall>x \<in> set (map (fst \<circ> snd) (xs @ (p1, e1, m1) # ys @ (p2, e2, m2) # zs)). x = ?root"
    by (subst envs) simp
  then have e1: "e1 = ?root" and e2: "e2 = ?root"
    by simp_all
  have "keeps_bindings ?root ?m0 m1"
  proof (rule replay_keeps_bindings)
    show "\<And>p e m r m'. Eval p e m = Some (r, m') \<Longrightarrow> \<exists>cs. m' = run cs m"
      by (rule Eval)
    show "?root < limit ?m0"
      by (simp add: NewEnvironment_def)
    show "(p1, e1, m1) \<in> set (fst (replay Eval ?root ?m0 (accepted parse lines)))"
      by (simp add: calls)
  qed
  then have lim: "?root < limit m1"
    by (simp add: keeps_bindings_def NewEnvironment_def)
  obtain qs where qs: "fst (replay Eval ?root m1 qs) = (p1, e1, m1) # ys @ (p2, e2, m2) # zs"
    using replay_suffix [OF calls] by blast
  have "keeps_bindings ?root m1 m2"
  proof (rule replay_keeps_bindings)
    show "\<And>p e m r m'. Eval p e m = Some (r, m') \<Longrightarrow> \<exists>cs. m' = run cs m"
      by (rule Eval)
    show "?root < limit m1"
      by (rule lim)
    show "(p2, e2, m2) \<in> set (fst (replay Eval ?root m1 qs))"
      by (simp only: qs) simp
  qed
  then have "name \<in> dom (store (environments m2 ?root))"
    using bound by (auto simp add: keeps_bindings_def e1)
  then obtain obj' where "store (environments m2 ?root) name = Some obj'"
    by auto
  then have "Get ?root name m2 = Some (Some obj')"
    by (subst Get.simps) simp
  then show ?thesis
    by (simp add: e1 e2)
qed

end
